theory Spec2Isabelle
  imports Main "HOL-Library.Word" "HOL-Library.AList"
begin

unbundle bit_operations_syntax

section \<open>Node descriptors and the cluster map\<close>

text \<open>
  The \<open>cluster\<close> package (\<open>Snode\<close>, \<open>SnodeFlags\<close>, \<open>Smap\<close>, \<open>NodeMap\<close>) is used by
  \<open>ais/clustermap.go\<close> but is not among the files verified here. Its types and small
  accessors are modelled from the specification's data model (section 3): a node
  descriptor has an identifier, a role, two endpoints and a bitset of flags; a cluster
  map has a version, a uuid, a creation time, one id-keyed map per role and a primary.

  Go maps are iterated in an unspecified order. A \<open>NodeMap\<close> is an association list
  with the operations of \<open>AList\<close>; a \<open>range\<close> loop walks the list, and every
  theorem below that speaks about such a loop holds for every list, hence for every
  order in which the keys may come. \<open>Version\<close> is \<open>int64\<close> in the source and a
  \<open>64 word\<close> here: \<open>m.Version++\<close> is \<open>+ 1\<close> on words and wraps as the source does, and
  the comparisons of versions read both sides as signed (\<open>sint\<close>).
\<close>

type_synonym SnodeFlags = "64 word"

text \<open>Modelled from the spec: the flag bits of \<open>cluster.SnodeFlags\<close>
  (\<open>non-electable\<close>, \<open>in-IC\<close>, \<open>maintenance\<close>, \<open>decommissioning\<close>).\<close>

definition SnodeNonElectable :: SnodeFlags where "SnodeNonElectable = 1"
definition SnodeIC :: SnodeFlags where "SnodeIC = 2"
definition SnodeMaintenance :: SnodeFlags where "SnodeMaintenance = 4"
definition SnodeDecomission :: SnodeFlags where "SnodeDecomission = 8"
definition SnodeMaintenanceMask :: SnodeFlags where
  "SnodeMaintenanceMask = SnodeMaintenance OR SnodeDecomission"

text \<open>Modelled from the spec: the flag arithmetic of \<open>cluster.SnodeFlags\<close>
  (\<open>Set\<close>, \<open>Clear\<close>, \<open>IsSet\<close>, \<open>IsAnySet\<close>).\<close>

definition flagsSet :: "SnodeFlags \<Rightarrow> SnodeFlags \<Rightarrow> SnodeFlags" where
  "flagsSet f flags = f OR flags"
definition flagsClear :: "SnodeFlags \<Rightarrow> SnodeFlags \<Rightarrow> SnodeFlags" where
  "flagsClear f flags = f AND NOT flags"
definition flagsIsSet :: "SnodeFlags \<Rightarrow> SnodeFlags \<Rightarrow> bool" where
  "flagsIsSet f flag = (f AND flag = flag)"
definition flagsIsAnySet :: "SnodeFlags \<Rightarrow> SnodeFlags \<Rightarrow> bool" where
  "flagsIsAnySet f flag = (f AND flag \<noteq> 0)"

datatype DaemonType = Proxy | Target

text \<open>Modelled from the spec: \<open>cluster.Snode\<close>.\<close>

record Snode =
  DaemonID :: string
  DaemonType :: DaemonType
  IntraControlURL :: string
  PublicURL :: string
  Flags :: SnodeFlags

definition IsProxy :: "Snode \<Rightarrow> bool" where
  "IsProxy si = (DaemonType si = Proxy)"
definition IsTarget :: "Snode \<Rightarrow> bool" where
  "IsTarget si = (DaemonType si = Target)"
definition nodeIsIC :: "Snode \<Rightarrow> bool" where
  "nodeIsIC si = flagsIsSet (Flags si) SnodeIC"
definition InMaintenance :: "Snode \<Rightarrow> bool" where
  "InMaintenance si = flagsIsAnySet (Flags si) SnodeMaintenanceMask"

type_synonym NodeMap = "(string \<times> Snode) list"

text \<open>Modelled from the spec: \<open>cluster.Smap\<close>, embedded in \<open>smapX\<close>. \<open>Primary\<close> is a
  pointer to a descriptor, and the node maps hold pointers too: \<open>Primary\<close> points
  either at the object stored under a key of \<open>Tmap\<close> or \<open>Pmap\<close>, so that a write to that
  object is seen through \<open>Primary\<close> (as after \<open>clone\<close>), or at an object of its own (as
  in a map decoded from JSON, or once the entry it pointed at has left the map).\<close>

datatype nodePtr = InTmap string | InPmap string | Own Snode

record smapX =
  Tmap :: NodeMap
  Pmap :: NodeMap
  Primary :: "nodePtr option"
  Version :: "64 word"
  UUID :: string
  CreationTime :: string

definition GetTarget :: "smapX \<Rightarrow> string \<Rightarrow> Snode option" where
  "GetTarget m sid = map_of (Tmap m) sid"
definition GetProxy :: "smapX \<Rightarrow> string \<Rightarrow> Snode option" where
  "GetProxy m pid = map_of (Pmap m) pid"
definition GetNode :: "smapX \<Rightarrow> string \<Rightarrow> Snode option" where
  "GetNode m sid = (case GetTarget m sid of Some tsi \<Rightarrow> Some tsi | None \<Rightarrow> GetProxy m sid)"

text \<open>The pointer that \<open>GetNode\<close> returns, the object a pointer points at, and the
  descriptor of the primary (\<open>None\<close> for a nil \<open>Primary\<close>).\<close>

definition GetNodePtr :: "smapX \<Rightarrow> string \<Rightarrow> nodePtr option" where
  "GetNodePtr m sid =
     (if GetTarget m sid \<noteq> None then Some (InTmap sid)
      else if GetProxy m sid \<noteq> None then Some (InPmap sid)
      else None)"

definition deref :: "smapX \<Rightarrow> nodePtr \<Rightarrow> Snode option" where
  "deref m ptr =
     (case ptr of
        InTmap sid \<Rightarrow> GetTarget m sid
      | InPmap pid \<Rightarrow> GetProxy m pid
      | Own si \<Rightarrow> Some si)"

definition primaryNode :: "smapX \<Rightarrow> Snode option" where
  "primaryNode m = (case Primary m of None \<Rightarrow> None | Some ptr \<Rightarrow> deref m ptr)"

text \<open>When the entry that \<open>Primary\<close> points at is deleted from its map or replaced by
  another object, \<open>Primary\<close> keeps the object it pointed at.\<close>

definition detach :: "smapX \<Rightarrow> nodePtr \<Rightarrow> smapX" where
  "detach m ptr =
     (if Primary m = Some ptr then m\<lparr>Primary := map_option Own (deref m ptr)\<rparr> else m)"

text \<open>Modelled from the spec: the information council is the set of proxies that carry
  the \<open>in-IC\<close> flag, and its budget \<open>defaultICSize\<close> is 3.\<close>

definition DefaultICSize :: nat where "DefaultICSize = 3"
definition ICCount :: "smapX \<Rightarrow> nat" where
  "ICCount m = length (filter (\<lambda>(pid, psi). nodeIsIC psi) (Pmap m))"
definition IsIC :: "smapX \<Rightarrow> Snode \<Rightarrow> bool" where
  "IsIC m psi = (case GetProxy m (DaemonID psi) of None \<Rightarrow> False | Some node \<Rightarrow> nodeIsIC node)"

section \<open>Errors\<close>

text \<open>
  \<open>cmn.Assert\<close> and \<open>cmn.Assertf\<close> panic when their condition is false; a panic is
  the error value of the operation that raised it. The other constructors are the
  error kinds the source builds with \<open>fmt.Errorf\<close> and its error types.
\<close>

datatype error =
    PanicDuplicateID string
  | PanicNotInSmap string
  | PanicAssert
  | PanicNilDeref
  | ErrDuplicateURL string
  | ErrInvalidSmap
  | ErrDowngrade
  | ErrWriteConfig
  | ErrFailedToPersist error
  | ErrPre
  | ErrBucketAlreadyExists
  | ErrTarget string
  | ErrUnknownNode string
  | ErrDuplicateNotif string
  | ErrNotFoundAt string
  | ErrAborted string
  | ErrNodeNotFound string
  | ErrUnknownUUID string
  | ErrAlreadyFinished string

section \<open>smapX: membership\<close>

definition isPresent :: "smapX \<Rightarrow> Snode \<Rightarrow> bool" where
  "isPresent m si =
     (if IsProxy si then GetProxy m (DaemonID si) \<noteq> None
      else GetTarget m (DaemonID si) \<noteq> None)"

text \<open>\<open>isValid\<close> asserts that a primary found in the map has a non-empty id.\<close>

definition isValid :: "smapX \<Rightarrow> error + bool" where
  "isValid m =
     (case primaryNode m of
        None \<Rightarrow> Inr False
      | Some p \<Rightarrow>
          if isPresent m p then (if DaemonID p = [] then Inl PanicAssert else Inr True)
          else Inr False)"

definition containsID :: "smapX \<Rightarrow> string \<Rightarrow> bool" where
  "containsID m sid =
     (if GetTarget m sid \<noteq> None then True
      else if GetProxy m sid \<noteq> None then True
      else False)"

definition addTarget :: "smapX \<Rightarrow> Snode \<Rightarrow> error + smapX" where
  "addTarget m tsi =
     (if containsID m (DaemonID tsi) then Inl (PanicDuplicateID (DaemonID tsi))
      else Inr (m\<lparr>Tmap := AList.update (DaemonID tsi) tsi (Tmap m), Version := Version m + 1\<rparr>))"

definition addProxy :: "smapX \<Rightarrow> Snode \<Rightarrow> error + smapX" where
  "addProxy m psi =
     (if containsID m (DaemonID psi) then Inl (PanicDuplicateID (DaemonID psi))
      else Inr (m\<lparr>Pmap := AList.update (DaemonID psi) psi (Pmap m), Version := Version m + 1\<rparr>))"

definition delTarget :: "smapX \<Rightarrow> string \<Rightarrow> error + smapX" where
  "delTarget m sid =
     (if GetTarget m sid = None then Inl (PanicNotInSmap sid)
      else Inr ((detach m (InTmap sid))
                  \<lparr>Tmap := AList.delete sid (Tmap m), Version := Version m + 1\<rparr>))"

definition delProxy :: "smapX \<Rightarrow> string \<Rightarrow> error + smapX" where
  "delProxy m pid =
     (if GetProxy m pid = None then Inl (PanicNotInSmap pid)
      else Inr ((detach m (InPmap pid))
                  \<lparr>Pmap := AList.delete pid (Pmap m), Version := Version m + 1\<rparr>))"

text \<open>
  \<open>putNode\<close> returns \<open>exists\<close> and works on the map in place. The proxy branch stores
  the pointer \<open>nsi\<close> and then assigns \<open>nsi.Flags = flags\<close>, so the stored descriptor
  carries \<open>flags\<close>; the target branch never reads \<open>flags\<close>. The result is the pair of
  \<open>exists\<close> and the map after the call.
\<close>

definition putNode :: "smapX \<Rightarrow> Snode \<Rightarrow> SnodeFlags \<Rightarrow> error + (bool \<times> smapX)" where
  "putNode m nsi flags =
     (let sid = DaemonID nsi in
      if IsProxy nsi then
        (case (if GetProxy m sid \<noteq> None
               then (case delProxy m sid of Inl e \<Rightarrow> Inl e | Inr m1 \<Rightarrow> Inr (True, m1))
               else Inr (False, m)) of
           Inl e \<Rightarrow> Inl e
         | Inr (ex, m1) \<Rightarrow>
             (case addProxy m1 nsi of
                Inl e \<Rightarrow> Inl e
              | Inr m2 \<Rightarrow>
                  Inr (ex, m2\<lparr>Pmap := AList.update sid (nsi\<lparr>Flags := flags\<rparr>) (Pmap m2)\<rparr>)))
      else if \<not> IsTarget nsi then Inl PanicAssert
      else
        (case (if GetTarget m sid \<noteq> None
               then (case delTarget m sid of Inl e \<Rightarrow> Inl e | Inr m1 \<Rightarrow> Inr (True, m1))
               else Inr (False, m)) of
           Inl e \<Rightarrow> Inl e
         | Inr (ex, m1) \<Rightarrow>
             (case addTarget m1 nsi of
                Inl e \<Rightarrow> Inl e
              | Inr m2 \<Rightarrow> Inr (ex, m2))))"

section \<open>smapX: node flags and the information council\<close>

text \<open>
  \<open>_applyFlags\<close> gets the pointer \<open>si\<close> that \<open>GetNode\<close> returned. \<open>si.Flags = newFlags\<close>
  writes to the object in place (\<open>writeAt\<close>), so the entry it is stored under changes,
  and with it what \<open>Primary\<close> sees if it points at that entry. The assignment
  \<open>m.Tmap[si.ID()] = si\<close> (or \<open>m.Pmap\<close>) then stores the same pointer under the id of the
  node: nothing more happens when that is the entry the node was found in, and
  otherwise the entry under that key is replaced (\<open>storeAt\<close>).
\<close>

definition writeAt :: "smapX \<Rightarrow> nodePtr \<Rightarrow> Snode \<Rightarrow> smapX" where
  "writeAt m ptr si =
     (case ptr of
        InTmap sid \<Rightarrow> m\<lparr>Tmap := AList.update sid si (Tmap m)\<rparr>
      | InPmap pid \<Rightarrow> m\<lparr>Pmap := AList.update pid si (Pmap m)\<rparr>
      | Own x \<Rightarrow> m)"

definition storeAt :: "smapX \<Rightarrow> nodePtr \<Rightarrow> Snode \<Rightarrow> smapX" where
  "storeAt m ptr si = writeAt (detach m ptr) ptr si"

definition applyFlags :: "smapX \<Rightarrow> nodePtr \<Rightarrow> Snode \<Rightarrow> SnodeFlags \<Rightarrow> smapX" where
  "applyFlags m ptr si newFlags =
     (let si' = si\<lparr>Flags := newFlags\<rparr>;
          m1 = writeAt m ptr si';
          dst = (if IsTarget si' then InTmap (DaemonID si') else InPmap (DaemonID si'));
          m2 = (if dst = ptr then m1 else storeAt m1 dst si')
      in m2\<lparr>Version := Version m + 1\<rparr>)"

definition setNodeFlags :: "smapX \<Rightarrow> string \<Rightarrow> SnodeFlags \<Rightarrow> error + smapX" where
  "setNodeFlags m sid flags =
     (case GetNodePtr m sid of
        None \<Rightarrow> Inl PanicAssert
      | Some ptr \<Rightarrow>
          (case deref m ptr of
             None \<Rightarrow> Inl PanicAssert
           | Some si \<Rightarrow>
               (let newFlags = flagsSet (Flags si) flags;
                    newFlags' = (if flagsIsAnySet flags SnodeMaintenanceMask
                                 then flagsClear newFlags SnodeIC else newFlags)
                in Inr (applyFlags m ptr si newFlags'))))"

definition clearNodeFlags :: "smapX \<Rightarrow> string \<Rightarrow> SnodeFlags \<Rightarrow> error + smapX" where
  "clearNodeFlags m sid flags =
     (case GetNodePtr m sid of
        None \<Rightarrow> Inl PanicAssert
      | Some ptr \<Rightarrow>
          (case deref m ptr of
             None \<Rightarrow> Inl PanicAssert
           | Some si \<Rightarrow> Inr (applyFlags m ptr si (flagsClear (Flags si) flags))))"

definition addIC :: "smapX \<Rightarrow> Snode \<Rightarrow> error + smapX" where
  "addIC m psi = (if \<not> IsIC m psi then setNodeFlags m (DaemonID psi) SnodeIC else Inr m)"

text \<open>
  The loop of \<open>_fillIC\<close> ranges over \<open>m.Pmap\<close> while \<open>addIC\<close> rewrites entries of the
  same map; the loop variable is the pointer stored under the key, so each step reads
  the entry as it is now.
\<close>

fun fillIC_loop :: "string list \<Rightarrow> smapX \<Rightarrow> error + smapX" where
  "fillIC_loop [] m = Inr m"
| "fillIC_loop (pid # pids) m =
     (case GetProxy m pid of
        None \<Rightarrow> fillIC_loop pids m
      | Some si \<Rightarrow>
          if flagsIsSet (Flags si) SnodeNonElectable then fillIC_loop pids m
          else (case addIC m si of
                  Inl e \<Rightarrow> Inl e
                | Inr m' \<Rightarrow> if ICCount m' \<ge> DefaultICSize then Inr m' else fillIC_loop pids m'))"

definition fillIC :: "smapX \<Rightarrow> error + smapX" where
  "fillIC m = (if ICCount m \<ge> DefaultICSize then Inr m else fillIC_loop (map fst (Pmap m)) m)"

fun evictIC_loop :: "string list \<Rightarrow> string \<Rightarrow> smapX \<Rightarrow> error + smapX" where
  "evictIC_loop [] prim m = Inr m"
| "evictIC_loop (sid # sids) prim m =
     (case GetProxy m sid of
        None \<Rightarrow> evictIC_loop sids prim m
      | Some si \<Rightarrow>
          if sid = prim \<or> \<not> nodeIsIC si then evictIC_loop sids prim m
          else clearNodeFlags m sid SnodeIC)"

definition evictIC :: "smapX \<Rightarrow> error + smapX" where
  "evictIC m =
     (if ICCount m \<le> DefaultICSize then Inr m
      else (case primaryNode m of
              None \<Rightarrow> Inl PanicNilDeref
            | Some p \<Rightarrow> evictIC_loop (map fst (Pmap m)) (DaemonID p) m))"

definition staffIC :: "smapX \<Rightarrow> error + smapX" where
  "staffIC m =
     (case primaryNode m of
        None \<Rightarrow> Inl PanicNilDeref
      | Some p \<Rightarrow>
          (case addIC m p of
             Inl e \<Rightarrow> Inl e
           | Inr m1 \<Rightarrow>
               (let m2 = m1\<lparr>Primary := GetNodePtr m1 (DaemonID p)\<rparr> in
                case fillIC m2 of
                  Inl e \<Rightarrow> Inl e
                | Inr m3 \<Rightarrow> evictIC m3)))"

section \<open>smapX: merge\<close>







section \<open>The change-listener bus\<close>

text \<open>
  \<open>postCh\<close> is a buffered Go channel. A send on a buffered channel completes when the
  buffer has room and parks the sending goroutine otherwise; \<open>chanSend\<close> is that rule,
  with \<open>None\<close> for a sender that is parked. The capacity is fixed when the channel is
  made.
\<close>

record smapLis =
  listeners :: "string list"
  postCh :: "64 word list"
  postChCap :: nat
  running :: bool

definition newSmapListeners :: smapLis where
  "newSmapListeners = \<lparr>listeners = [], postCh = [], postChCap = 8, running = False\<rparr>"

definition chanSend :: "nat \<Rightarrow> 64 word list \<Rightarrow> 64 word \<Rightarrow> 64 word list option" where
  "chanSend cap buf v = (if length buf < cap then Some (buf @ [v]) else None)"

datatype sendOutcome = SendReturns smapLis | SendParked | SendPanic error

definition notify :: "smapLis \<Rightarrow> 64 word \<Rightarrow> sendOutcome" where
  "notify sls ver =
     (if \<not> sint ver \<ge> 0 then SendPanic PanicAssert
      else if running sls then
        (case chanSend (postChCap sls) (postCh sls) ver of
           Some buf \<Rightarrow> SendReturns (sls\<lparr>postCh := buf\<rparr>)
         | None \<Rightarrow> SendParked)
      else SendReturns sls)"

section \<open>The map owner\<close>

text \<open>
  The owner holds the published map pointer and its listener bus. \<open>persist\<close> works on
  the global configuration and on two files; the state below carries the primary URL
  of the configuration in memory, the primary URL in the configuration file, and the
  map stored in \<open>.ais.smap\<close>. \<open>jsp.Save\<close> is outside the files verified here: whether
  each of its two calls succeeds is a parameter (\<open>diskEnv\<close>), and a failed save leaves
  its file as it was. \<open>hooks\<close> records the calls of \<open>ctx.post\<close> and \<open>ctx.final\<close>.

  An operation of the owner returns, or panics, or is parked in the channel send of
  \<open>notify\<close>; \<open>Parked\<close> carries the state at that moment.
\<close>

datatype hook = HookPost "64 word" | HookFinal "64 word option"

record ownerState =
  smap :: "smapX option"
  lis :: smapLis
  cfgPrimaryURL :: string
  diskConfig :: string
  diskSmap :: "smapX option"
  hooks :: "hook list"

record diskEnv =
  saveConfigOK :: bool
  saveSmapOK :: bool

datatype 'r outcome = Return 'r ownerState | Parked ownerState | Panic error

definition put :: "smapX \<Rightarrow> ownerState \<Rightarrow> unit outcome" where
  "put newSmap st =
     (let st1 = st\<lparr>smap := Some newSmap\<rparr> in
      case notify (lis st1) (Version newSmap) of
        SendPanic e \<Rightarrow> Panic e
      | SendParked \<Rightarrow> Parked st1
      | SendReturns sls \<Rightarrow> Return () (st1\<lparr>lis := sls\<rparr>))"

definition persist :: "diskEnv \<Rightarrow> smapX \<Rightarrow> ownerState \<Rightarrow> (error option) outcome" where
  "persist env newSmap st =
     (case primaryNode newSmap of
        None \<Rightarrow> Panic PanicNilDeref
      | Some prim \<Rightarrow>
          if \<not> saveConfigOK env then Return (Some ErrWriteConfig) st
          else
            (let st1 = st\<lparr>cfgPrimaryURL := PublicURL prim, diskConfig := PublicURL prim\<rparr>;
                 st2 = (if \<not> saveSmapOK env then st1 else st1\<lparr>diskSmap := Some newSmap\<rparr>)
             in Return None st2))"

text \<open>
  \<open>synchronize\<close> reads the current map with \<open>r.Get()\<close>, that is \<open>&r.get().Smap\<close>: on an
  owner that holds no map this dereferences a nil pointer, so the call panics there
  and the test \<open>smap != nil\<close> that follows never fails.
\<close>

definition synchronize ::
  "diskEnv \<Rightarrow> Snode \<Rightarrow> smapX \<Rightarrow> ownerState \<Rightarrow> (error option \<times> Snode) outcome" where
  "synchronize env si newSmap st =
     (case isValid newSmap of
        Inl e \<Rightarrow> Panic e
      | Inr valid \<Rightarrow>
      if \<not> valid then Return (Some ErrInvalidSmap, si) st
      else
        (case smap st of
           None \<Rightarrow> Panic PanicNilDeref
         | Some cur \<Rightarrow>
        (case (if sint (Version newSmap) \<le> sint (Version cur)
               then Some (if sint (Version newSmap) < sint (Version cur)
                          then Some ErrDowngrade else None)
               else None) of
           Some err \<Rightarrow> Return (err, si) st
         | None \<Rightarrow>
             (case persist env newSmap st of
                Panic e \<Rightarrow> Panic e
              | Parked st1 \<Rightarrow> Parked st1
              | Return (Some e) st1 \<Rightarrow> Return (Some e, si) st1
              | Return None st1 \<Rightarrow>
                  (case put newSmap st1 of
                     Panic e \<Rightarrow> Panic e
                   | Parked st2 \<Rightarrow> Parked st2
                   | Return u st2 \<Rightarrow>
                       (case GetNode newSmap (DaemonID si) of
                          Some self \<Rightarrow> Return (None, si\<lparr>Flags := Flags self\<rparr>) st2
                        | None \<Rightarrow> Return (None, si) st2))))))"

text \<open>
  \<open>clone\<close> copies both node maps with their descriptors and then points \<open>Primary\<close> at
  the copied proxy of the same id (nil if there is none); with maps of values only the
  second step is visible.
\<close>

definition clone :: "smapX \<Rightarrow> error + smapX" where
  "clone m =
     (case primaryNode m of
        None \<Rightarrow> Inl PanicNilDeref
      | Some prim \<Rightarrow>
          Inr (m\<lparr>Primary := (if GetProxy m (DaemonID prim) \<noteq> None
                               then Some (InPmap (DaemonID prim)) else None)\<rparr>))"

record smapModifier =
  pre :: "smapX \<Rightarrow> error option \<times> smapX"
  hasPost :: bool
  hasFinal :: bool

definition runPre ::
  "diskEnv \<Rightarrow> smapModifier \<Rightarrow> ownerState \<Rightarrow> (smapX option \<times> error option) outcome" where
  "runPre env ctx st =
     (case smap st of
        None \<Rightarrow> Panic PanicNilDeref
      | Some cur \<Rightarrow>
          (case clone cur of
             Inl e \<Rightarrow> Panic e
           | Inr c0 \<Rightarrow>
               (case pre ctx c0 of
                  (Some e, c) \<Rightarrow> Return (Some c, Some e) st
                | (None, c) \<Rightarrow>
                    (case persist env c st of
                       Panic e \<Rightarrow> Panic e
                     | Parked st1 \<Rightarrow> Parked st1
                     | Return (Some e) st1 \<Rightarrow> Return (None, Some (ErrFailedToPersist e)) st1
                     | Return None st1 \<Rightarrow>
                         (case put c st1 of
                            Panic e \<Rightarrow> Panic e
                          | Parked st2 \<Rightarrow> Parked st2
                          | Return u st2 \<Rightarrow>
                              Return (Some c, None)
                                (if hasPost ctx
                                 then st2\<lparr>hooks := hooks st2 @ [HookPost (Version c)]\<rparr>
                                 else st2))))))"

definition modify :: "diskEnv \<Rightarrow> smapModifier \<Rightarrow> ownerState \<Rightarrow> (error option) outcome" where
  "modify env ctx st =
     (case runPre env ctx st of
        Panic e \<Rightarrow> Panic e
      | Parked st1 \<Rightarrow> Parked st1
      | Return (c, Some e) st1 \<Rightarrow> Return (Some e) st1
      | Return (c, None) st1 \<Rightarrow>
          Return None
            (if hasFinal ctx
             then st1\<lparr>hooks := hooks st1 @ [HookFinal (map_option Version c)]\<rparr>
             else st1))"

fun finalState :: "'r outcome \<Rightarrow> ownerState option" where
  "finalState (Return r st) = Some st"
| "finalState (Parked st) = Some st"
| "finalState (Panic e) = None"

fun returned :: "'r outcome \<Rightarrow> 'r option" where
  "returned (Return r st) = Some r"
| "returned (Parked st) = None"
| "returned (Panic e) = None"

section \<open>The create-bucket transaction\<close>

text \<open>Modelled from the spec: the bucket metadata and its owner (\<open>bucketMD\<close> with
  \<open>Get\<close>, \<open>add\<close>, \<open>del\<close>, \<open>clone\<close>, \<open>version\<close>) are not among the files verified here.
  BMD is a versioned mapping from bucket identity (provider, namespace, name) to
  bucket properties; a change of the mapping moves the version by one.\<close>

type_synonym Bck = "string \<times> string \<times> string"

datatype BucketProps = DefaultBucketProps | CloudBucketProps string | GivenProps string

record bucketMD =
  bmdVersion :: "64 word"
  buckets :: "(Bck \<times> BucketProps) list"

definition bmdGet :: "bucketMD \<Rightarrow> Bck \<Rightarrow> BucketProps option" where
  "bmdGet b bck = map_of (buckets b) bck"

definition bmdAdd :: "bucketMD \<Rightarrow> Bck \<Rightarrow> BucketProps \<Rightarrow> bool \<times> bucketMD" where
  "bmdAdd b bck props =
     (if bmdGet b bck \<noteq> None then (False, b)
      else (True, b\<lparr>bmdVersion := bmdVersion b + 1,
                     buckets := AList.update bck props (buckets b)\<rparr>))"

definition bmdDel :: "bucketMD \<Rightarrow> Bck \<Rightarrow> bool \<times> bucketMD" where
  "bmdDel b bck =
     (if bmdGet b bck = None then (False, b)
      else (True, b\<lparr>bmdVersion := bmdVersion b + 1,
                     buckets := AList.delete bck (buckets b)\<rparr>))"

text \<open>Modelled from the spec: \<open>bcastPost\<close> and the metasyncer are not among the files
  verified here. A broadcast posts the request of the given phase to every target of
  the map snapshot taken by \<open>prepTxnClient\<close> and yields one result per target; what a
  target answers is a parameter (\<open>respond\<close>, \<open>None\<close> for a 2xx answer). The state keeps
  the published BMD, every request sent, in order, and the BMD versions handed to
  metasync.\<close>

datatype phase = ActBegin | ActCommit | ActAbort

record proxyState =
  bmd :: bucketMD
  sent :: "(string \<times> phase) list"
  synced :: "64 word list"

type_synonym respond = "string \<Rightarrow> phase \<Rightarrow> error option"

definition bcastPost ::
  "respond \<Rightarrow> smapX \<Rightarrow> phase \<Rightarrow> proxyState \<Rightarrow> (string \<times> error option) list \<times> proxyState" where
  "bcastPost respond sm ph st =
     (let tids = map fst (Tmap sm)
      in (map (\<lambda>tid. (tid, respond tid ph)) tids,
          st\<lparr>sent := sent st @ map (\<lambda>tid. (tid, ph)) tids\<rparr>))"

text \<open>The loop \<open>for res := range results\<close> stops at the first result that carries an
  error and hands that error on.\<close>

definition firstErr :: "(string \<times> error option) list \<Rightarrow> error option" where
  "firstErr results =
     (case find (\<lambda>res. snd res \<noteq> None) results of None \<Rightarrow> None | Some res \<Rightarrow> snd res)"

definition undoCreateBucket :: "Bck \<Rightarrow> proxyState \<Rightarrow> proxyState" where
  "undoCreateBucket bck st =
     (case bmdDel (bmd st) bck of
        (False, cl) \<Rightarrow> st
      | (True, cl) \<Rightarrow> st\<lparr>bmd := cl, synced := synced st @ [bmdVersion cl]\<rparr>)"

definition createBucket ::
  "respond \<Rightarrow> smapX \<Rightarrow> Bck \<Rightarrow> BucketProps option \<Rightarrow> string list \<Rightarrow> proxyState
     \<Rightarrow> error option \<times> proxyState" where
  "createBucket respond sm bck bckProps cloudHeader st =
     (let bucketProps =
            (case bckProps of
               Some props \<Rightarrow> props
             | None \<Rightarrow> if length cloudHeader \<noteq> 0 then CloudBucketProps (hd cloudHeader)
                        else DefaultBucketProps)
      in if bmdGet (bmd st) bck \<noteq> None then (Some ErrBucketAlreadyExists, st)
         else
           (case bcastPost respond sm ActBegin st of
              (results, st1) \<Rightarrow>
                (case firstErr results of
                   Some e \<Rightarrow>
                     (case bcastPost respond sm ActAbort st1 of
                        (ignored, st2) \<Rightarrow> (Some e, st2))
                 | None \<Rightarrow>
                     (case bmdAdd (bmd st1) bck bucketProps of
                        (False, cl) \<Rightarrow> (Some PanicAssert, st1)
                      | (True, cl) \<Rightarrow>
                          (let st3 = st1\<lparr>bmd := cl, synced := synced st1 @ [bmdVersion cl]\<rparr>
                           in case bcastPost respond sm ActCommit st3 of
                                (results', st4) \<Rightarrow>
                                  (case firstErr results' of
                                     Some e \<Rightarrow> (Some e, undoCreateBucket bck st4)
                                   | None \<Rightarrow> (None, st4)))))))"

section \<open>The notification registry\<close>

text \<open>
  A listener is an object shared by pointer between the maps \<open>running\<close> (\<open>n.m\<close>) and
  \<open>finished\<close> (\<open>n.fin\<close>) and whoever holds it in a loop. The registry state keeps the
  objects in one store keyed by uuid (\<open>nls\<close>) and the two maps as lists of keys; the
  uuid of a listener is the key of its object. \<open>srcs\<close> maps the id of a notifier to
  its descriptor, or to \<open>None\<close> once the notifier has reported (\<open>srcs[tid] = nil\<close>).
  \<open>hasF\<close> says that the callback \<open>f\<close> is not nil, and \<open>fcalls\<close> records every call of
  \<open>f\<close> with the error it was given. \<open>notifXact\<close> is the only notification type, so the
  type switches have one branch and are left out. Clock readings (\<open>time.Now\<close>) are
  arguments.
\<close>

record notifListenerBase =
  srcs :: "(string \<times> Snode option) list"
  errs :: "(string \<times> error) list"
  hasF :: bool
  rc :: int
  tfin :: int
  owned :: bool
  fcalls :: "(error option) list"

record notifs =
  nls :: "(string \<times> notifListenerBase) list"
  running_m :: "string list"
  fin :: "string list"
  smapVer :: "64 word"
  jtxBcasts :: nat

definition newNLB :: "NodeMap \<Rightarrow> bool \<Rightarrow> notifListenerBase" where
  "newNLB nodes f =
     \<lparr>srcs = map (\<lambda>(sid, si). (sid, Some si)) nodes, errs = [], hasF = f, rc = 0, tfin = 0,
      owned = False, fcalls = []\<rparr>"

definition finTime :: "notifListenerBase \<Rightarrow> int" where
  "finTime nl = tfin nl"

definition finished :: "notifListenerBase \<Rightarrow> bool" where
  "finished nl = (finTime nl > 0)"

definition addErr :: "notifListenerBase \<Rightarrow> string \<Rightarrow> error \<Rightarrow> notifListenerBase" where
  "addErr nl sid err = nl\<lparr>errs := AList.update sid err (errs nl)\<rparr>"

definition incRC :: "notifListenerBase \<Rightarrow> int \<times> notifListenerBase" where
  "incRC nl = (rc nl + 1, nl\<lparr>rc := rc nl + 1\<rparr>)"

text \<open>\<open>handleMsg\<close> returns \<open>(err, status, done)\<close> and the listener as it leaves it.\<close>

definition handleMsg ::
  "notifListenerBase \<Rightarrow> string \<Rightarrow> error option
     \<Rightarrow> error option \<times> int \<times> bool \<times> notifListenerBase" where
  "handleMsg nl tid srcErr =
     (case map_of (srcs nl) tid of
        None \<Rightarrow> (Some (ErrUnknownNode tid), 404, False, nl)
      | Some None \<Rightarrow> (Some (ErrDuplicateNotif tid), 0, False, nl)
      | Some (Some tsi) \<Rightarrow>
          (let nl1 = (case srcErr of Some e \<Rightarrow> addErr nl tid e | None \<Rightarrow> nl);
               nl2 = nl1\<lparr>srcs := AList.update tid None (srcs nl1)\<rparr>
           in case incRC nl2 of
                (cnt, nl3) \<Rightarrow> (None, 0, cnt \<ge> int (length (srcs nl3)), nl3)))"

definition getNL :: "notifs \<Rightarrow> string \<Rightarrow> notifListenerBase option" where
  "getNL n u = map_of (nls n) u"

definition setNL :: "notifs \<Rightarrow> string \<Rightarrow> notifListenerBase \<Rightarrow> notifs" where
  "setNL n u nl = n\<lparr>nls := AList.update u nl (nls n)\<rparr>"

text \<open>
  \<open>callback\<close>: \<open>tfin.CAS(0, 1)\<close> succeeds only on a listener whose \<open>tfin\<close> is 0; then
  \<open>f\<close> is called if it is not nil, \<open>tfin\<close> takes the time given (\<open>callbackCAS\<close>) and the
  listener is entered in \<open>finished\<close>. When the CAS fails nothing happens.
\<close>

definition callbackCAS :: "notifListenerBase \<Rightarrow> error option \<Rightarrow> int \<Rightarrow> notifListenerBase" where
  "callbackCAS nl err now =
     (let nl1 = nl\<lparr>tfin := 1\<rparr>;
          nl2 = (if hasF nl1 then nl1\<lparr>fcalls := fcalls nl1 @ [err]\<rparr> else nl1)
      in nl2\<lparr>tfin := now\<rparr>)"

definition callback :: "notifs \<Rightarrow> string \<Rightarrow> error option \<Rightarrow> int \<Rightarrow> notifs" where
  "callback n u err now =
     (case getNL n u of
        None \<Rightarrow> n
      | Some nl \<Rightarrow>
          if tfin nl = 0
          then (setNL n u (callbackCAS nl err now))\<lparr>fin := List.insert u (fin n)\<rparr>
          else n)"

definition del :: "notifs \<Rightarrow> string \<Rightarrow> notifs" where
  "del n u = n\<lparr>running_m := removeAll u (running_m n)\<rparr>"

definition entry :: "notifs \<Rightarrow> string \<Rightarrow> notifListenerBase option" where
  "entry n u =
     (if u \<in> set (running_m n) then getNL n u
      else if u \<in> set (fin n) then getNL n u
      else None)"

datatype response = RespOK | RespErr error int

text \<open>
  \<open>handler\<close> from the point where the message has been read: \<open>u\<close> is the uuid in the
  message, \<open>tid\<close> the id of the sender, \<open>srcErr\<close> the error it reports.
\<close>

definition handler ::
  "notifs \<Rightarrow> string \<Rightarrow> string \<Rightarrow> error option \<Rightarrow> int \<Rightarrow> response \<times> notifs" where
  "handler n u tid srcErr now =
     (case entry n u of
        None \<Rightarrow> (RespErr (ErrUnknownUUID u) 404, n)
      | Some nl \<Rightarrow>
          if finished nl then (RespErr (ErrAlreadyFinished u) 0, n)
          else
            (case handleMsg nl tid srcErr of
               (err, status, done, nl') \<Rightarrow>
                 (let n1 = setNL n u nl';
                      n2 = (if done then del (callback n1 u None now) u else n1)
                  in (case err of Some e \<Rightarrow> RespErr e status | None \<Rightarrow> RespOK, n2))))"

text \<open>
  One answer to the status query of housekeeping: statistics of the xaction at node
  \<open>sid\<close> with its \<open>finished\<close> and \<open>aborted\<close> marks, a body that does not unmarshal, or
  a failure with its HTTP status.
\<close>

datatype callResult =
    ResStats string bool bool
  | ResBadJSON string
  | ResErr string int

definition hkXact ::
  "notifs \<Rightarrow> string \<Rightarrow> string \<Rightarrow> bool \<Rightarrow> bool \<Rightarrow> error option \<times> bool \<times> notifs" where
  "hkXact n u sid statsFinished statsAborted =
     (case getNL n u of
        None \<Rightarrow> (None, False, n)
      | Some nl \<Rightarrow>
          if statsFinished then
            (if statsAborted then
               (Some (ErrAborted sid), True, setNL n u (addErr nl sid (ErrAborted sid)))
             else
               (case handleMsg nl sid None of
                  (e, status, done, nl') \<Rightarrow> (None, done, setNL n u nl')))
          else (None, False, n))"

fun hkResults :: "callResult list \<Rightarrow> notifs \<Rightarrow> string \<Rightarrow> int \<Rightarrow> notifs" where
  "hkResults [] n u now = n"
| "hkResults (res # rest) n u now =
     (case (case res of
              ResStats sid statsFinished statsAborted \<Rightarrow> hkXact n u sid statsFinished statsAborted
            | ResBadJSON sid \<Rightarrow> (None, False, n)
            | ResErr sid status \<Rightarrow>
                if status = 404 then
                  (Some (ErrNotFoundAt sid), True,
                   (case getNL n u of
                      None \<Rightarrow> n
                    | Some nl \<Rightarrow> setNL n u (addErr nl sid (ErrNotFoundAt sid))))
                else (None, False, n)) of
        (err, done, n1) \<Rightarrow>
          if done then del (callback n1 u err now) u
          else hkResults rest n1 u now)"

fun hkFin :: "string list \<Rightarrow> int \<Rightarrow> notifs \<Rightarrow> nat \<times> notifs" where
  "hkFin [] now n = (0, n)"
| "hkFin (u # us) now n =
     (case getNL n u of
        None \<Rightarrow> hkFin us now n
      | Some nl \<Rightarrow>
          if now - finTime nl > 3 * (2 * 60 * 1000000000) then
            (case hkFin us now (n\<lparr>fin := removeAll u (fin n)\<rparr>) of
               (cnt, n') \<Rightarrow> ((if owned nl then cnt + 1 else cnt), n'))
          else hkFin us now n)"

fun hkRunning :: "string list \<Rightarrow> (string \<Rightarrow> callResult list) \<Rightarrow> int \<Rightarrow> notifs \<Rightarrow> notifs" where
  "hkRunning [] pull now n = n"
| "hkRunning (u # us) pull now n = hkRunning us pull now (hkResults (pull u) n u now)"

definition housekeep :: "notifs \<Rightarrow> (string \<Rightarrow> callResult list) \<Rightarrow> int \<Rightarrow> notifs" where
  "housekeep n pull now =
     (case hkFin (fin n) now n of
        (ownedRmCount, n1) \<Rightarrow>
          (let n2 = (if ownedRmCount > 0 then n1\<lparr>jtxBcasts := jtxBcasts n1 + 1\<rparr> else n1)
           in if length (running_m n2) = 0 then n2
              else hkRunning (running_m n2) pull now n2))"

text \<open>
  \<open>ListenSmapChanged\<close>: the first pass finds, for each running listener, a notifier
  that has not reported and is gone from the map; the second fails those listeners
  and calls back; the third deletes them from \<open>running\<close>.
\<close>

definition missingSrc :: "smapX \<Rightarrow> notifListenerBase \<Rightarrow> string option" where
  "missingSrc sm nl =
     map_option fst (find (\<lambda>(sid, si). si \<noteq> None \<and> GetNode sm sid = None) (srcs nl))"

fun lscFail :: "(string \<times> string) list \<Rightarrow> int \<Rightarrow> notifs \<Rightarrow> notifs" where
  "lscFail [] now n = n"
| "lscFail ((u, sid) # rest) now n =
     (case getNL n u of
        None \<Rightarrow> lscFail rest now n
      | Some nl \<Rightarrow>
          lscFail rest now
            (callback (setNL n u (addErr nl sid (ErrNodeNotFound sid))) u
               (Some (ErrNodeNotFound sid)) now))"

definition ListenSmapChanged :: "notifs \<Rightarrow> bool \<Rightarrow> smapX \<Rightarrow> int \<Rightarrow> notifs" where
  "ListenSmapChanged n clusterStarted sm now =
     (if \<not> clusterStarted then n
      else if sint (smapVer n) \<ge> sint (Version sm) then n
      else
        (let n1 = n\<lparr>smapVer := Version sm\<rparr> in
         if length (running_m n1) = 0 then n1
         else
           (let rem = List.map_filter
                        (\<lambda>u. case getNL n1 u of
                               None \<Rightarrow> None
                             | Some nl \<Rightarrow> map_option (\<lambda>sid. (u, sid)) (missingSrc sm nl))
                        (running_m n1)
            in if length rem = 0 then n1
               else fold (\<lambda>(u, sid) x. del x u) rem (lscFail rem now n1))))"

text \<open>
  The registry is entered by the HTTP handler, by housekeeping and by the map-change
  listener, which run concurrently and share listeners by pointer. An \<open>event\<close> is one
  such entry run to its end, or one of the steps the entries are made of (a call of
  \<open>callback\<close>, \<open>handleMsg\<close>, \<open>addErr\<close> or \<open>del\<close> on a listener held since before),
  so that a sequence of events covers the interleavings of the entries at the grain of
  these steps. \<open>clockOK\<close> says that the clock reading an event carries, if any, is
  positive.
\<close>

datatype event =
    EvPush string string "error option" int
  | EvHousekeep "string \<Rightarrow> callResult list" int
  | EvSmapChanged bool smapX int
  | EvCallback string "error option" int
  | EvHandleMsg string string "error option"
  | EvAddErr string string error
  | EvDel string

fun evClock :: "event \<Rightarrow> int option" where
  "evClock (EvPush u tid srcErr now) = Some now"
| "evClock (EvHousekeep pull now) = Some now"
| "evClock (EvSmapChanged started sm now) = Some now"
| "evClock (EvCallback u err now) = Some now"
| "evClock (EvHandleMsg u tid srcErr) = None"
| "evClock (EvAddErr u sid err) = None"
| "evClock (EvDel u) = None"


fun step :: "event \<Rightarrow> notifs \<Rightarrow> notifs" where
  "step (EvPush u tid srcErr now) n = snd (handler n u tid srcErr now)"
| "step (EvHousekeep pull now) n = housekeep n pull now"
| "step (EvSmapChanged started sm now) n = ListenSmapChanged n started sm now"
| "step (EvCallback u err now) n = callback n u err now"
| "step (EvHandleMsg u tid srcErr) n =
     (case getNL n u of
        None \<Rightarrow> n
      | Some nl \<Rightarrow> (case handleMsg nl tid srcErr of (err, status, done, nl') \<Rightarrow> setNL n u nl'))"
| "step (EvAddErr u sid err) n =
     (case getNL n u of None \<Rightarrow> n | Some nl \<Rightarrow> setNL n u (addErr nl sid err))"
| "step (EvDel u) n = del n u"

definition run :: "event list \<Rightarrow> notifs \<Rightarrow> notifs" where
  "run evs n = fold step evs n"

text \<open>The number of notifiers of a listener that have reported (\<open>srcs[id] = nil\<close>).\<close>

definition reported :: "notifListenerBase \<Rightarrow> nat" where
  "reported nl = length (filter (\<lambda>(sid, si). si = None) (srcs nl))"

text \<open>
  Two conditions on a listener: its refcount is the number of notifiers that have
  reported; and \<open>f\<close> has not been called while \<open>tfin\<close> is 0 and has been called once,
  if it is not nil, when \<open>tfin\<close> is not 0.
\<close>

definition rcInv :: "notifListenerBase \<Rightarrow> bool" where
  "rcInv nl = (rc nl = int (reported nl))"


definition allNL :: "(notifListenerBase \<Rightarrow> bool) \<Rightarrow> notifs \<Rightarrow> bool" where
  "allNL P n = list_all (\<lambda>(u, nl). P nl) (nls n)"

text \<open>
  A condition on listeners is closed when the three steps that write to a listener
  keep it: \<open>handleMsg\<close>, \<open>addErr\<close>, and the body of \<open>callback\<close> after a successful
  CAS, the latter for the clock readings that \<open>ok\<close> admits.
\<close>

definition closedP :: "(int \<Rightarrow> bool) \<Rightarrow> (notifListenerBase \<Rightarrow> bool) \<Rightarrow> bool" where
  "closedP ok P =
     ((\<forall>nl tid e. P nl \<longrightarrow> P (snd (snd (snd (handleMsg nl tid e))))) \<and>
      (\<forall>nl sid e. P nl \<longrightarrow> P (addErr nl sid e)) \<and>
      (\<forall>nl err now. P nl \<and> tfin nl = 0 \<and> ok now \<longrightarrow> P (callbackCAS nl err now)))"

text \<open>
  \<open>callback\<close> is not run under a lock: only its CAS is atomic. The steps of one call
  are the CAS, the call of \<open>f\<close> and the store of the finish time; \<open>cbStep i\<close> lets the
  \<open>i\<close>-th of several concurrent calls of \<open>callback\<close> on one listener take its next
  step, and a schedule is the list of the calls that step, in order. \<open>cbStart\<close> is a
  listener that has not finished with calls that have not begun and carry clock
  readings other than 0; \<open>cbJ\<close> is what every schedule keeps.
\<close>

datatype cbPc = AtCAS | AtCall | AtStore | AtEnd

record cbThread =
  pc :: cbPc
  cbErr :: "error option"
  cbNow :: int

definition cbStep ::
  "nat \<Rightarrow> notifListenerBase \<times> cbThread list \<Rightarrow> notifListenerBase \<times> cbThread list" where
  "cbStep i s =
     (case s of (nl, ths) \<Rightarrow>
        if i \<ge> length ths then s
        else
          (let th = ths ! i in
           case pc th of
             AtCAS \<Rightarrow>
               if tfin nl = 0 then (nl\<lparr>tfin := 1\<rparr>, ths[i := th\<lparr>pc := AtCall\<rparr>])
               else (nl, ths[i := th\<lparr>pc := AtEnd\<rparr>])
           | AtCall \<Rightarrow>
               ((if hasF nl then nl\<lparr>fcalls := fcalls nl @ [cbErr th]\<rparr> else nl),
                ths[i := th\<lparr>pc := AtStore\<rparr>])
           | AtStore \<Rightarrow> (nl\<lparr>tfin := cbNow th\<rparr>, ths[i := th\<lparr>pc := AtEnd\<rparr>])
           | AtEnd \<Rightarrow> s))"

definition cbRun ::
  "nat list \<Rightarrow> notifListenerBase \<times> cbThread list \<Rightarrow> notifListenerBase \<times> cbThread list" where
  "cbRun sched s = fold cbStep sched s"



section \<open>Concrete inputs\<close>

text \<open>The maps and states at which the theorems below are instantiated.\<close>

definition mkNode :: "string \<Rightarrow> DaemonType \<Rightarrow> string \<Rightarrow> SnodeFlags \<Rightarrow> Snode" where
  "mkNode sid ty url flags =
     \<lparr>DaemonID = sid, DaemonType = ty, IntraControlURL = url @ '':c'', PublicURL = url,
      Flags = flags\<rparr>"

definition smapEx :: smapX where
  "smapEx =
     \<lparr>Tmap = [(''t1'', mkNode ''t1'' Target ''http://t1'' 0)],
      Pmap = [(''p0'', mkNode ''p0'' Proxy ''http://p0'' 0),
              (''p1'', mkNode ''p1'' Proxy ''http://p1'' 0)],
      Primary = Some (InPmap ''p0''),
      Version = 7, UUID = ''u'', CreationTime = ''c''\<rparr>"

definition smapMaint :: smapX where
  "smapMaint =
     \<lparr>Tmap = [(''t1'', mkNode ''t1'' Target ''http://t1'' 0)],
      Pmap = [(''p0'', mkNode ''p0'' Proxy ''http://p0'' 0),
              (''p1'', mkNode ''p1'' Proxy ''http://p1'' SnodeMaintenance)],
      Primary = Some (InPmap ''p0''),
      Version = 7, UUID = ''u'', CreationTime = ''c''\<rparr>"

definition ownerEx :: "smapX \<Rightarrow> ownerState" where
  "ownerEx cur =
     \<lparr>smap = Some cur, lis = newSmapListeners, cfgPrimaryURL = ''http://p0'',
      diskConfig = ''http://p0'', diskSmap = Some cur, hooks = []\<rparr>"

definition bumpVersion :: smapModifier where
  "bumpVersion = \<lparr>pre = (\<lambda>c. (None, c\<lparr>Version := Version c + 1\<rparr>)), hasPost = False, hasFinal = False\<rparr>"


definition smapScenario :: smapX where
  "smapScenario =
     \<lparr>Tmap = [(''T1'', mkNode ''T1'' Target ''http://t1'' 0),
              (''T2'', mkNode ''T2'' Target ''http://t2'' 0)],
      Pmap = [(''P0'', mkNode ''P0'' Proxy ''http://p0'' 0)],
      Primary = Some (InPmap ''P0''),
      Version = 1, UUID = ''u'', CreationTime = ''c''\<rparr>"

definition proxyEmpty :: proxyState where
  "proxyEmpty = \<lparr>bmd = \<lparr>bmdVersion = 0, buckets = []\<rparr>, sent = [], synced = []\<rparr>"

definition t2FailsBeginAbort :: respond where
  "t2FailsBeginAbort tid ph =
     (if tid = ''T2'' \<and> ph = ActBegin then Some (ErrTarget ''T2'')
      else if ph = ActAbort then Some (ErrTarget tid) else None)"

text \<open>
  A registry with one running listener \<open>U\<close> that waits for the targets T1 and T2, the
  same registry after T1 has reported, a map from which T2 is gone, and a sequence of
  events: T1 reports, T1 reports again, the map changes, a holder of the listener
  calls back once more, and housekeeping pulls an abort and a 404.
\<close>

definition nlEx :: notifListenerBase where
  "nlEx = newNLB (Tmap smapScenario) True"

definition notifsEx :: notifs where
  "notifsEx = \<lparr>nls = [(''U'', nlEx)], running_m = [''U''], fin = [], smapVer = 1, jtxBcasts = 0\<rparr>"

definition smapNoT2 :: smapX where
  "smapNoT2 = smapScenario\<lparr>Tmap := [(''T1'', mkNode ''T1'' Target ''http://t1'' 0)], Version := 2\<rparr>"

definition evsEx :: "event list" where
  "evsEx =
     [EvPush ''U'' ''T1'' None 5,
      EvPush ''U'' ''T1'' None 6,
      EvSmapChanged True smapNoT2 7,
      EvCallback ''U'' None 8,
      EvHousekeep (\<lambda>u. [ResStats ''T2'' True True, ResErr ''T1'' 404]) 9]"

definition nlRep :: notifListenerBase where
  "nlRep = nlEx\<lparr>srcs := [(''T1'', None), (''T2'', Some (mkNode ''T2'' Target ''http://t2'' 0))],
                rc := 1\<rparr>"

definition notifsRep :: notifs where
  "notifsRep = notifsEx\<lparr>nls := [(''U'', nlRep)]\<rparr>"


section \<open>Signed reading of version increments\<close>

lemma sint_add_no_wrap:
  fixes v :: "64 word"
  assumes "sint v + int k < 2 ^ 63"
  shows "sint (v + of_nat k) = sint v + int k"
proof -
  have ge: "- (2 ^ 63) \<le> sint v" using sint_ge [of v] by simp
  have "sint (v + of_nat k) = sint (word_of_int (sint v + int k) :: 64 word)"
    by simp
  also have "\<dots> = signed_take_bit 63 (sint v + int k)"
    by (simp add: sint_sbintrunc' del: of_int_add)
  also have "\<dots> = sint v + int k"
    using assms ge by (intro signed_take_bit_int_eq_self) auto
  finally show ?thesis .
qed

lemma sint_add1_no_wrap:
  fixes v :: "64 word"
  shows "sint v < 2 ^ 63 - 1 \<Longrightarrow> sint (v + 1) = sint v + 1"
  using sint_add_no_wrap [of v 1] by simp

lemma sint_add2_no_wrap:
  fixes v :: "64 word"
  shows "sint v < 2 ^ 63 - 2 \<Longrightarrow> sint (v + 2) = sint v + 2"
  using sint_add_no_wrap [of v 2] by simp

lemma sint_add_no_wrap_left:
  fixes v :: "64 word"
  shows "sint v < 2 ^ 63 - 1 \<Longrightarrow> sint (1 + v) = sint v + 1"
    and "sint v < 2 ^ 63 - 2 \<Longrightarrow> sint (2 + v) = sint v + 2"
  using sint_add1_no_wrap [of v] sint_add2_no_wrap [of v] by (simp_all add: add.commute)

section \<open>putNode\<close>

lemmas putNode_unfold =
  putNode_def Let_def IsProxy_def IsTarget_def addProxy_def addTarget_def delProxy_def
  delTarget_def containsID_def GetTarget_def GetProxy_def GetNode_def detach_def

text \<open>
  C7. For every call \<open>putNode(desc, flags)\<close>: when the id of \<open>desc\<close> is in the map of
  the other role, the call fails with the duplicate-id panic of \<open>addProxy\<close> or
  \<open>addTarget\<close>. Otherwise the call succeeds, \<open>exists\<close> tells whether a node of the same
  id was in the map of the same role, that node has been removed and \<open>desc\<close> is stored
  in its place, every other entry is as before, and the version has been incremented:
  once for the addition, and once more for the removal of the node replaced. The
  increments are those of \<open>int64\<close>, so the version is greater than before unless the
  counter wraps.
\<close>

theorem putNode_replaces_and_bumps_version:
  "(let sid = DaemonID nsi;
        sameRole = (if IsProxy nsi then GetProxy m sid \<noteq> None else GetTarget m sid \<noteq> None);
        otherRole = (if IsProxy nsi then GetTarget m sid \<noteq> None else GetProxy m sid \<noteq> None)
    in (otherRole \<longrightarrow> putNode m nsi flags = Inl (PanicDuplicateID sid)) \<and>
       (\<not> otherRole \<longrightarrow>
          (\<exists>m'. putNode m nsi flags = Inr (sameRole, m') \<and>
                Version m' = Version m + (if sameRole then 2 else 1) \<and>
                (sint (Version m) < 2 ^ 63 - 2 \<longrightarrow> sint (Version m) < sint (Version m')) \<and>
                GetNode m' sid = Some (if IsProxy nsi then nsi\<lparr>Flags := flags\<rparr> else nsi) \<and>
                (\<forall>k. k \<noteq> sid \<longrightarrow>
                   GetProxy m' k = GetProxy m k \<and> GetTarget m' k = GetTarget m k))))"
  using sint_add1_no_wrap [of "Version m"] sint_add2_no_wrap [of "Version m"]
    sint_add_no_wrap_left [of "Version m"]
  by (cases "DaemonType nsi")
     (auto simp: putNode_unfold update_conv' delete_conv' split: sum.splits)

theorem putNode_replaces_and_bumps_version_witness:
  "putNode smapEx (mkNode ''t1'' Proxy ''http://x'' 0) 1 = Inl (PanicDuplicateID ''t1'') \<and>
   (\<exists>m'. putNode smapEx (mkNode ''p1'' Proxy ''http://p1b'' 0) 1 = Inr (True, m') \<and>
      Version m' = 9 \<and> sint (Version smapEx) < sint (Version m')) \<and>
   (\<exists>m'. putNode smapEx (mkNode ''t2'' Target ''http://t2'' 0) 1 = Inr (False, m') \<and>
      Version m' = 8 \<and> sint (Version smapEx) < sint (Version m'))"
  using putNode_replaces_and_bumps_version [of "mkNode ''t1'' Proxy ''http://x'' 0" smapEx 1]
        putNode_replaces_and_bumps_version [of "mkNode ''p1'' Proxy ''http://p1b'' 0" smapEx 1]
        putNode_replaces_and_bumps_version [of "mkNode ''t2'' Target ''http://t2'' 0" smapEx 1]
  by (auto simp: Let_def IsProxy_def GetProxy_def GetTarget_def smapEx_def mkNode_def)

text \<open>
  C10. For a target, \<open>putNode\<close> does not look at its \<open>flags\<close> argument: the call gives
  the same result for any two values of it, and on success the descriptor stored for
  the target is \<open>desc\<close> as it was passed, with the flags it carried.
\<close>

theorem putNode_target_ignores_flags:
  "IsTarget nsi \<Longrightarrow>
     putNode m nsi flags = putNode m nsi flags' \<and>
     (case putNode m nsi flags of
        Inl e \<Rightarrow> True
      | Inr (ex, m') \<Rightarrow> GetTarget m' (DaemonID nsi) = Some nsi \<and> Pmap m' = Pmap m)"
  by (auto simp: putNode_unfold update_conv' delete_conv' split: sum.splits if_splits)

theorem putNode_target_ignores_flags_witness:
  "IsTarget (mkNode ''t2'' Target ''http://t2'' 4) \<and>
   putNode smapEx (mkNode ''t2'' Target ''http://t2'' 4) 3 =
     putNode smapEx (mkNode ''t2'' Target ''http://t2'' 4) 0 \<and>
   (\<exists>m'. putNode smapEx (mkNode ''t2'' Target ''http://t2'' 4) 3 = Inr (False, m') \<and>
      map_option Flags (GetTarget m' ''t2'') = Some 4)"
  using putNode_target_ignores_flags [of "mkNode ''t2'' Target ''http://t2'' 4" smapEx 3 0]
  by (simp add: putNode_unfold smapEx_def mkNode_def)

section \<open>The map owner: synchronize\<close>

lemma persist_cases:
  "primaryNode newSmap = Some prim \<Longrightarrow>
   persist env newSmap st =
     (if saveConfigOK env
      then Return None (st\<lparr>cfgPrimaryURL := PublicURL prim, diskConfig := PublicURL prim,
                            diskSmap := (if saveSmapOK env then Some newSmap else diskSmap st)\<rparr>)
      else Return (Some ErrWriteConfig) st)"
  by (simp add: persist_def Let_def)

lemma put_cases:
  "0 \<le> sint (Version newSmap) \<Longrightarrow>
   (\<exists>st'. (put newSmap st = Parked st' \<or> put newSmap st = Return () st') \<and>
          smap st' = Some newSmap \<and> cfgPrimaryURL st' = cfgPrimaryURL st \<and>
          diskConfig st' = diskConfig st \<and> diskSmap st' = diskSmap st \<and> hooks st' = hooks st)"
  by (simp add: put_def notify_def Let_def split: option.splits)

lemma synchronize_newer:
  assumes a: "isValid newSmap = Inr True \<and> smap st = Some cur \<and>
    sint (Version cur) < sint (Version newSmap) \<and>
    0 \<le> sint (Version newSmap) \<and> saveConfigOK env"
  shows "(\<exists>st'. finalState (synchronize env si newSmap st) = Some st' \<and>
             smap st' = Some newSmap \<and>
             diskConfig st' = PublicURL (the (primaryNode newSmap)) \<and>
             (saveSmapOK env \<longrightarrow> diskSmap st' = Some newSmap)) \<and>
      (\<forall>e si'. returned (synchronize env si newSmap st) \<noteq> Some (Some e, si'))"
proof -
  from a obtain prim where prim: "primaryNode newSmap = Some prim"
    by (auto simp: isValid_def split: option.splits if_splits)
  define st1 where "st1 = st\<lparr>cfgPrimaryURL := PublicURL prim, diskConfig := PublicURL prim,
                            diskSmap := (if saveSmapOK env then Some newSmap else diskSmap st)\<rparr>"
  have p: "persist env newSmap st = Return None st1"
    using a persist_cases [OF prim, of env st] by (simp add: st1_def)
  from a put_cases [of newSmap st1] obtain st' where
    st': "put newSmap st1 = Parked st' \<or> put newSmap st1 = Return () st'"
      "smap st' = Some newSmap" "diskConfig st' = diskConfig st1" "diskSmap st' = diskSmap st1"
    by blast
  have s: "synchronize env si newSmap st =
        (case put newSmap st1 of
           Panic e \<Rightarrow> Panic e
         | Parked st2 \<Rightarrow> Parked st2
         | Return u st2 \<Rightarrow>
             (case GetNode newSmap (DaemonID si) of
                Some self \<Rightarrow> Return (None, si\<lparr>Flags := Flags self\<rparr>) st2
              | None \<Rightarrow> Return (None, si) st2))"
    using a p by (simp add: synchronize_def)
  from st'(1) have fs: "finalState (synchronize env si newSmap st) = Some st'"
    unfolding s by (auto split: option.splits)
  from st'(1) have rt: "\<forall>e si'. returned (synchronize env si newSmap st) \<noteq> Some (Some e, si')"
    unfolding s by (auto split: option.splits)
  show ?thesis
    using fs rt st'(2,3,4) prim by (auto simp: st1_def)
qed

text \<open>
  C3. For every call \<open>synchronize(newMap)\<close>: an invalid map is rejected with an error
  and the owner is left as it was; a valid map older than the current one gets the
  downgrade error, and nothing is written or published; a valid map of the current
  version is accepted without error and without effect; a valid map newer than the
  current one is persisted and published: when the write of the configuration file
  succeeds, the configuration file names the primary of the new map, \<open>.ais.smap\<close>
  holds the new map if its write succeeds, the new map is the published one, and no
  error is returned.
\<close>

theorem synchronize_by_version:
  "(isValid newSmap = Inr False \<longrightarrow>
      synchronize env si newSmap st = Return (Some ErrInvalidSmap, si) st) \<and>
   (isValid newSmap = Inr True \<and> smap st = Some cur \<and>
    sint (Version newSmap) < sint (Version cur) \<longrightarrow>
      synchronize env si newSmap st = Return (Some ErrDowngrade, si) st) \<and>
   (isValid newSmap = Inr True \<and> smap st = Some cur \<and>
    sint (Version newSmap) = sint (Version cur) \<longrightarrow>
      synchronize env si newSmap st = Return (None, si) st) \<and>
   (isValid newSmap = Inr True \<and> smap st = Some cur \<and>
    sint (Version cur) < sint (Version newSmap) \<and>
    0 \<le> sint (Version newSmap) \<and> saveConfigOK env \<longrightarrow>
      (\<exists>st'. finalState (synchronize env si newSmap st) = Some st' \<and>
             smap st' = Some newSmap \<and>
             diskConfig st' = PublicURL (the (primaryNode newSmap)) \<and>
             (saveSmapOK env \<longrightarrow> diskSmap st' = Some newSmap)) \<and>
      (\<forall>e si'. returned (synchronize env si newSmap st) \<noteq> Some (Some e, si')))"
  using synchronize_newer [of newSmap st cur env si]
  by (simp add: synchronize_def)

theorem synchronize_by_version_witness:
  "synchronize \<lparr>saveConfigOK = True, saveSmapOK = True\<rparr> (mkNode ''p1'' Proxy ''http://p1'' 0)
       (smapEx\<lparr>Primary := None\<rparr>) (ownerEx smapEx)
     = Return (Some ErrInvalidSmap, mkNode ''p1'' Proxy ''http://p1'' 0) (ownerEx smapEx) \<and>
   synchronize \<lparr>saveConfigOK = True, saveSmapOK = True\<rparr> (mkNode ''p1'' Proxy ''http://p1'' 0)
       (smapEx\<lparr>Version := 5\<rparr>) (ownerEx smapEx)
     = Return (Some ErrDowngrade, mkNode ''p1'' Proxy ''http://p1'' 0) (ownerEx smapEx) \<and>
   synchronize \<lparr>saveConfigOK = True, saveSmapOK = True\<rparr> (mkNode ''p1'' Proxy ''http://p1'' 0)
       (smapEx\<lparr>UUID := ''other''\<rparr>) (ownerEx smapEx)
     = Return (None, mkNode ''p1'' Proxy ''http://p1'' 0) (ownerEx smapEx) \<and>
   (\<exists>st'. finalState (synchronize \<lparr>saveConfigOK = True, saveSmapOK = True\<rparr>
               (mkNode ''p1'' Proxy ''http://p1'' 0) (smapEx\<lparr>Version := 8\<rparr>) (ownerEx smapEx)) = Some st' \<and>
          smap st' = Some (smapEx\<lparr>Version := 8\<rparr>) \<and> diskSmap st' = Some (smapEx\<lparr>Version := 8\<rparr>))"
  using synchronize_by_version [of "smapEx\<lparr>Primary := None\<rparr>" "\<lparr>saveConfigOK = True, saveSmapOK = True\<rparr>"
          "mkNode ''p1'' Proxy ''http://p1'' 0" "ownerEx smapEx" smapEx]
        synchronize_by_version [of "smapEx\<lparr>Version := 5\<rparr>" "\<lparr>saveConfigOK = True, saveSmapOK = True\<rparr>"
          "mkNode ''p1'' Proxy ''http://p1'' 0" "ownerEx smapEx" smapEx]
        synchronize_by_version [of "smapEx\<lparr>UUID := ''other''\<rparr>" "\<lparr>saveConfigOK = True, saveSmapOK = True\<rparr>"
          "mkNode ''p1'' Proxy ''http://p1'' 0" "ownerEx smapEx" smapEx]
        synchronize_by_version [of "smapEx\<lparr>Version := 8\<rparr>" "\<lparr>saveConfigOK = True, saveSmapOK = True\<rparr>"
          "mkNode ''p1'' Proxy ''http://p1'' 0" "ownerEx smapEx" smapEx]
  by (auto simp: isValid_def isPresent_def IsProxy_def GetProxy_def primaryNode_def deref_def
      smapEx_def mkNode_def ownerEx_def)

section \<open>The map owner: modify and persistence failures\<close>

text \<open>
  C4, as claimed: every failed disk write of the persist step makes \<open>modify\<close> surface
  an error and leave the published map as it was. At the input below the write of
  \<open>.ais.smap\<close> fails, and \<open>modify\<close> returns no error and publishes the clone
  (version 8 in place of version 7).
\<close>

theorem modify_smap_write_failure_counterexample:
  "modify \<lparr>saveConfigOK = True, saveSmapOK = False\<rparr> bumpVersion (ownerEx smapEx) =
     Return None ((ownerEx smapEx)\<lparr>smap := Some (smapEx\<lparr>Version := 8\<rparr>)\<rparr>)"
  by (simp add: modify_def runPre_def persist_def put_def notify_def clone_def bumpVersion_def
      ownerEx_def smapEx_def mkNode_def GetProxy_def primaryNode_def deref_def
      newSmapListeners_def Let_def)

text \<open>
  C4, amended. During a modify whose \<open>pre\<close> succeeds, a failed write of the
  configuration file is fatal to the attempt: the error is surfaced and the owner,
  with its published map, is as before. A failed write of \<open>.ais.smap\<close> is not: it is
  logged only, no error is returned, the clone is published and the file keeps its old
  content.
\<close>

theorem modify_persist_failure:
  "smap st = Some cur \<and> clone cur = Inr c0 \<and> pre ctx c0 = (None, c) \<and> primaryNode c = Some prim \<longrightarrow>
     (\<not> saveConfigOK env \<longrightarrow>
        modify env ctx st = Return (Some (ErrFailedToPersist ErrWriteConfig)) st) \<and>
     (saveConfigOK env \<and> \<not> saveSmapOK env \<and> 0 \<le> sint (Version c) \<longrightarrow>
        (\<exists>st'. finalState (modify env ctx st) = Some st' \<and> smap st' = Some c \<and>
               diskSmap st' = diskSmap st) \<and>
        (\<forall>e. returned (modify env ctx st) \<noteq> Some (Some e)))"
proof (intro impI conjI)
  assume a: "smap st = Some cur \<and> clone cur = Inr c0 \<and> pre ctx c0 = (None, c) \<and> primaryNode c = Some prim"
    and b: "\<not> saveConfigOK env"
  show "modify env ctx st = Return (Some (ErrFailedToPersist ErrWriteConfig)) st"
    using a b by (simp add: modify_def runPre_def persist_cases)
next
  assume a: "smap st = Some cur \<and> clone cur = Inr c0 \<and> pre ctx c0 = (None, c) \<and> primaryNode c = Some prim"
    and b: "saveConfigOK env \<and> \<not> saveSmapOK env \<and> 0 \<le> sint (Version c)"
  define st1 where "st1 = st\<lparr>cfgPrimaryURL := PublicURL prim, diskConfig := PublicURL prim\<rparr>"
  have p: "persist env c st = Return None st1"
    using a b persist_cases [of c prim env st] by (simp add: st1_def)
  from b put_cases [of c st1] obtain st' where
    st': "put c st1 = Parked st' \<or> put c st1 = Return () st'"
      "smap st' = Some c" "diskSmap st' = diskSmap st1"
    by blast
  from st'(1) show "\<exists>st'. finalState (modify env ctx st) = Some st' \<and> smap st' = Some c \<and>
               diskSmap st' = diskSmap st"
    using a p st'(2,3) by (auto simp: modify_def runPre_def st1_def)
next
  assume a: "smap st = Some cur \<and> clone cur = Inr c0 \<and> pre ctx c0 = (None, c) \<and> primaryNode c = Some prim"
    and b: "saveConfigOK env \<and> \<not> saveSmapOK env \<and> 0 \<le> sint (Version c)"
  define st1 where "st1 = st\<lparr>cfgPrimaryURL := PublicURL prim, diskConfig := PublicURL prim\<rparr>"
  have p: "persist env c st = Return None st1"
    using a b persist_cases [of c prim env st] by (simp add: st1_def)
  from b put_cases [of c st1] obtain st' where
    st': "put c st1 = Parked st' \<or> put c st1 = Return () st'"
    by blast
  from st' show "\<forall>e. returned (modify env ctx st) \<noteq> Some (Some e)"
    using a p by (auto simp: modify_def runPre_def)
qed

theorem modify_persist_failure_witness:
  "modify \<lparr>saveConfigOK = False, saveSmapOK = True\<rparr> bumpVersion (ownerEx smapEx) =
     Return (Some (ErrFailedToPersist ErrWriteConfig)) (ownerEx smapEx) \<and>
   (\<exists>st'. finalState (modify \<lparr>saveConfigOK = True, saveSmapOK = False\<rparr> bumpVersion (ownerEx smapEx)) = Some st' \<and>
      smap st' = Some (smapEx\<lparr>Version := 8\<rparr>) \<and> diskSmap st' = Some smapEx)"
  using modify_persist_failure [of "ownerEx smapEx" smapEx smapEx bumpVersion "smapEx\<lparr>Version := 8\<rparr>"
          "mkNode ''p0'' Proxy ''http://p0'' 0" "\<lparr>saveConfigOK = False, saveSmapOK = True\<rparr>"]
        modify_persist_failure [of "ownerEx smapEx" smapEx smapEx bumpVersion "smapEx\<lparr>Version := 8\<rparr>"
          "mkNode ''p0'' Proxy ''http://p0'' 0" "\<lparr>saveConfigOK = True, saveSmapOK = False\<rparr>"]
  by (auto simp: clone_def bumpVersion_def ownerEx_def smapEx_def mkNode_def GetProxy_def
      primaryNode_def deref_def)

section \<open>The change-listener bus: notify\<close>

text \<open>
  C9, as claimed: a notification never blocks, and is dropped when the queue is full.
  With the worker running and eight versions queued, \<open>notify\<close> neither returns nor
  drops: the sender is parked in the channel send.
\<close>

theorem notify_full_queue_counterexample:
  "notify (newSmapListeners\<lparr>running := True, postCh := [1, 2, 3, 4, 5, 6, 7, 8]\<rparr>) 9 = SendParked"
  by (simp add: notify_def chanSend_def newSmapListeners_def)

text \<open>
  C9, amended. The queue of the bus holds at most 8 versions. A notification returns
  at once without queueing anything while the worker is not running; while it runs,
  the version is appended if the queue has room, and the sender is parked if the queue
  is full. Nothing is dropped or coalesced.
\<close>

theorem notify_bounded_queue:
  "postChCap newSmapListeners = 8 \<and>
   (0 \<le> sint ver \<longrightarrow>
      notify sls ver =
        (if \<not> running sls then SendReturns sls
         else if length (postCh sls) < postChCap sls
              then SendReturns (sls\<lparr>postCh := postCh sls @ [ver]\<rparr>)
              else SendParked))"
  by (simp add: notify_def chanSend_def newSmapListeners_def)

theorem notify_bounded_queue_witness:
  "(0::int) \<le> sint (9 :: 64 word) \<and>
   notify (newSmapListeners\<lparr>running := True, postCh := [1, 2, 3]\<rparr>) 9 =
     SendReturns (newSmapListeners\<lparr>running := True, postCh := [1, 2, 3, 9]\<rparr>) \<and>
   notify (newSmapListeners\<lparr>postCh := [1, 2, 3]\<rparr>) 9 = SendReturns (newSmapListeners\<lparr>postCh := [1, 2, 3]\<rparr>)"
  using notify_bounded_queue [of 9 "newSmapListeners\<lparr>running := True, postCh := [1, 2, 3]\<rparr>"]
        notify_bounded_queue [of 9 "newSmapListeners\<lparr>postCh := [1, 2, 3]\<rparr>"]
  by (simp add: newSmapListeners_def)

section \<open>merge and the version\<close>








section \<open>Staffing the information council\<close>

lemmas ic_unfold =
  staffIC_def addIC_def IsIC_def GetProxy_def GetNode_def GetTarget_def nodeIsIC_def
  InMaintenance_def flagsIsSet_def flagsIsAnySet_def flagsSet_def flagsClear_def
  SnodeIC_def SnodeMaintenanceMask_def SnodeMaintenance_def SnodeDecomission_def
  SnodeNonElectable_def setNodeFlags_def clearNodeFlags_def applyFlags_def Let_def
  IsTarget_def fillIC_def ICCount_def DefaultICSize_def evictIC_def GetNodePtr_def
  deref_def primaryNode_def writeAt_def storeAt_def detach_def

text \<open>The sibling rule: setting a maintenance bit clears the in-IC flag.\<close>

lemma setNodeFlags_maintenance_clears_IC:
  "flagsIsAnySet flags SnodeMaintenanceMask \<Longrightarrow>
     setNodeFlags m sid flags = Inr m' \<Longrightarrow>
     \<exists>ptr si. GetNodePtr m sid = Some ptr \<and> deref m ptr = Some si \<and>
       m' = applyFlags m ptr si (flagsClear (flagsSet (Flags si) flags) SnodeIC) \<and>
       \<not> flagsIsSet (flagsClear (flagsSet (Flags si) flags) SnodeIC) SnodeIC"
  by (auto simp: setNodeFlags_def Let_def flagsIsSet_def flagsClear_def SnodeIC_def and.assoc
        split: option.splits)

text \<open>
  C6. No node in maintenance carries the in-IC flag, and staffing the council never
  adds a proxy in maintenance. \<open>setNodeFlags\<close> keeps this rule by clearing the in-IC
  flag whenever a maintenance bit is set, but \<open>_fillIC\<close> skips non-electable proxies
  only: on a map with the primary and one proxy in maintenance, \<open>staffIC\<close> gives that
  proxy the in-IC flag next to its maintenance flag.
\<close>

theorem staffIC_adds_maintenance_proxy:
  "staffIC smapMaint =
     Inr (smapMaint\<lparr>Pmap := [(''p0'', mkNode ''p0'' Proxy ''http://p0'' SnodeIC),
                               (''p1'', mkNode ''p1'' Proxy ''http://p1'' (SnodeMaintenance OR SnodeIC))],
                     Version := 9\<rparr>) \<and>
   nodeIsIC (mkNode ''p1'' Proxy ''http://p1'' (SnodeMaintenance OR SnodeIC)) \<and>
   InMaintenance (mkNode ''p1'' Proxy ''http://p1'' (SnodeMaintenance OR SnodeIC))"
  by (simp add: ic_unfold smapMaint_def mkNode_def)

section \<open>create-bucket: a failed begin\<close>

lemma firstErr_Some:
  "firstErr (map (\<lambda>tid. (tid, f tid)) tids) = Some e \<Longrightarrow> \<exists>tid\<in>set tids. f tid = Some e"
  by (auto simp: firstErr_def find_Some_iff split: option.splits)

lemma firstErr_None:
  "firstErr (map (\<lambda>tid. (tid, f tid)) tids) = None \<longleftrightarrow> (\<forall>tid\<in>set tids. f tid = None)"
  by (auto simp: firstErr_def find_None_iff find_Some_iff split: option.splits)

text \<open>
  C1. When the bucket is not in BMD and some target answers the begin broadcast with
  an error, \<open>createBucket\<close> sends begin to every target, then abort to every target,
  returns the error of a begin answer whatever the targets answer to the abort, and
  leaves BMD (version and buckets) and everything else but the record of requests as
  before the call.
\<close>

theorem createBucket_begin_failure:
  "bmdGet (bmd st) bck = None \<and> (\<exists>tid\<in>set (map fst (Tmap sm)). respond tid ActBegin \<noteq> None) \<longrightarrow>
     (\<exists>e. createBucket respond sm bck bckProps cloudHeader st =
            (Some e, st\<lparr>sent := sent st @ map (\<lambda>tid. (tid, ActBegin)) (map fst (Tmap sm))
                                    @ map (\<lambda>tid. (tid, ActAbort)) (map fst (Tmap sm))\<rparr>) \<and>
          (\<exists>tid\<in>set (map fst (Tmap sm)). respond tid ActBegin = Some e))"
proof
  assume a: "bmdGet (bmd st) bck = None \<and> (\<exists>tid\<in>set (map fst (Tmap sm)). respond tid ActBegin \<noteq> None)"
  let ?tids = "map fst (Tmap sm)"
  let ?res = "map (\<lambda>tid. (tid, respond tid ActBegin)) ?tids"
  from a have "firstErr ?res \<noteq> None"
    using firstErr_None [of "\<lambda>tid. respond tid ActBegin" ?tids] by auto
  then obtain e where e: "firstErr ?res = Some e" by auto
  from firstErr_Some [OF e] have m: "\<exists>tid\<in>set ?tids. respond tid ActBegin = Some e" .
  have "createBucket respond sm bck bckProps cloudHeader st =
            (Some e, st\<lparr>sent := sent st @ map (\<lambda>tid. (tid, ActBegin)) ?tids
                                    @ map (\<lambda>tid. (tid, ActAbort)) ?tids\<rparr>)"
    using a e by (simp add: createBucket_def bcastPost_def Let_def)
  with m show "\<exists>e. createBucket respond sm bck bckProps cloudHeader st =
            (Some e, st\<lparr>sent := sent st @ map (\<lambda>tid. (tid, ActBegin)) ?tids
                                    @ map (\<lambda>tid. (tid, ActAbort)) ?tids\<rparr>) \<and>
          (\<exists>tid\<in>set ?tids. respond tid ActBegin = Some e)"
    by blast
qed

theorem createBucket_begin_failure_witness:
  "createBucket t2FailsBeginAbort smapScenario (''ais'', '''', ''foo'') None [] proxyEmpty =
     (Some (ErrTarget ''T2''),
      proxyEmpty\<lparr>sent := [(''T1'', ActBegin), (''T2'', ActBegin), (''T1'', ActAbort), (''T2'', ActAbort)]\<rparr>) \<and>
   bmdVersion (bmd (proxyEmpty\<lparr>sent := [(''T1'', ActBegin), (''T2'', ActBegin), (''T1'', ActAbort), (''T2'', ActAbort)]\<rparr>)) = 0"
  using createBucket_begin_failure [of proxyEmpty "(''ais'', '''', ''foo'')" smapScenario t2FailsBeginAbort None "[]"]
  by (auto simp: bmdGet_def proxyEmpty_def smapScenario_def t2FailsBeginAbort_def)

section \<open>The notification registry: conditions kept by every event\<close>

lemma list_all_update:
  "list_all Q xs \<Longrightarrow> Q (k, v) \<Longrightarrow> list_all Q (AList.update k v xs)"
  by (induction xs) auto

lemma allNL_setNL: "allNL P n \<Longrightarrow> P nl \<Longrightarrow> allNL P (setNL n u nl)"
  by (simp add: allNL_def setNL_def list_all_update)

lemma allNL_getNL: "allNL P n \<Longrightarrow> getNL n u = Some nl \<Longrightarrow> P nl"
  by (auto simp: allNL_def getNL_def list_all_iff dest: map_of_SomeD)

lemma allNL_del: "allNL P (del n u) = allNL P n"
  by (simp add: allNL_def del_def)

lemma closedP_handleMsg:
  "closedP ok P \<Longrightarrow> P nl \<Longrightarrow> handleMsg nl tid e = (err, status, dn, nl') \<Longrightarrow> P nl'"
  unfolding closedP_def by (metis snd_conv)

lemma closedP_addErr: "closedP ok P \<Longrightarrow> P nl \<Longrightarrow> P (addErr nl sid e)"
  unfolding closedP_def by blast

lemma closedP_callbackCAS:
  "closedP ok P \<Longrightarrow> P nl \<Longrightarrow> tfin nl = 0 \<Longrightarrow> ok now \<Longrightarrow> P (callbackCAS nl err now)"
  unfolding closedP_def by blast

lemma callback_pres:
  assumes "closedP ok P" "ok now" "allNL P n"
  shows "allNL P (callback n u err now)"
proof (cases "getNL n u")
  case None
  with assms show ?thesis by (simp add: callback_def)
next
  case (Some nl)
  with assms have "P nl" by (auto dest: allNL_getNL)
  show ?thesis
  proof (cases "tfin nl = 0")
    case True
    with assms \<open>P nl\<close> have "P (callbackCAS nl err now)" by (auto intro: closedP_callbackCAS)
    with assms have "allNL P (setNL n u (callbackCAS nl err now))" by (auto intro: allNL_setNL)
    then have "allNL P ((setNL n u (callbackCAS nl err now))\<lparr>fin := List.insert u (fin n)\<rparr>)"
      by (simp add: allNL_def)
    with Some True show ?thesis by (simp add: callback_def)
  next
    case False
    with Some assms show ?thesis by (simp add: callback_def)
  qed
qed

lemma handler_pres:
  assumes "closedP ok P" "ok now" "allNL P n"
  shows "allNL P (snd (handler n u tid srcErr now))"
proof (cases "entry n u")
  case None
  with assms show ?thesis by (simp add: handler_def)
next
  case (Some nl)
  then have g: "getNL n u = Some nl" by (auto simp: entry_def split: if_splits)
  with assms have "P nl" by (auto dest: allNL_getNL)
  obtain err status dn nl' where h: "handleMsg nl tid srcErr = (err, status, dn, nl')"
    by (metis prod_cases4)
  with assms \<open>P nl\<close> have "P nl'" by (auto dest: closedP_handleMsg)
  with assms have s: "allNL P (setNL n u nl')" by (auto intro: allNL_setNL)
  with assms have "allNL P (del (callback (setNL n u nl') u None now) u)"
    by (simp add: allNL_del callback_pres)
  with s Some h assms show ?thesis by (simp add: handler_def Let_def)
qed

lemma hkXact_pres:
  assumes "closedP ok P" "allNL P n" "hkXact n u sid sf sa = (err, dn, n')"
  shows "allNL P n'"
proof (cases "getNL n u")
  case None
  with assms show ?thesis by (simp add: hkXact_def)
next
  case (Some nl)
  with assms have "P nl" by (auto dest: allNL_getNL)
  obtain e status d nl' where h: "handleMsg nl sid None = (e, status, d, nl')"
    by (metis prod_cases4)
  with assms \<open>P nl\<close> have "P nl'" by (auto dest: closedP_handleMsg)
  with assms have 1: "allNL P (setNL n u nl')" by (auto intro: allNL_setNL)
  from assms \<open>P nl\<close> have 2: "allNL P (setNL n u (addErr nl sid (ErrAborted sid)))"
    by (auto intro: allNL_setNL closedP_addErr)
  from assms(3) Some h 1 2 assms(2) show ?thesis
    by (auto simp: hkXact_def split: if_splits)
qed

lemma hkResults_pres:
  assumes "closedP ok P" "ok now"
  shows "allNL P n \<Longrightarrow> allNL P (hkResults rs n u now)"
proof (induction rs arbitrary: n)
  case Nil
  then show ?case by simp
next
  case (Cons res rest)
  define r where "r = (case res of
              ResStats sid statsFinished statsAborted \<Rightarrow> hkXact n u sid statsFinished statsAborted
            | ResBadJSON sid \<Rightarrow> (None, False, n)
            | ResErr sid status \<Rightarrow>
                if status = 404 then
                  (Some (ErrNotFoundAt sid), True,
                   (case getNL n u of
                      None \<Rightarrow> n
                    | Some nl \<Rightarrow> setNL n u (addErr nl sid (ErrNotFoundAt sid))))
                else (None, False, n))"
  obtain err dn n1 where r: "r = (err, dn, n1)" by (metis prod_cases3)
  have n1: "allNL P n1"
  proof (cases res)
    case (ResStats sid sf sa)
    with r r_def have "hkXact n u sid sf sa = (err, dn, n1)" by simp
    with assms Cons.prems show ?thesis by (auto dest: hkXact_pres)
  next
    case (ResBadJSON sid)
    with r r_def Cons.prems show ?thesis by simp
  next
    case (ResErr sid status)
    show ?thesis
    proof (cases "getNL n u")
      case None
      with ResErr r r_def Cons.prems show ?thesis by (auto split: if_splits)
    next
      case (Some nl)
      with Cons.prems have "P nl" by (auto dest: allNL_getNL)
      with assms Cons.prems have "allNL P (setNL n u (addErr nl sid (ErrNotFoundAt sid)))"
        by (auto intro: allNL_setNL closedP_addErr)
      with Some ResErr r r_def Cons.prems show ?thesis by (auto split: if_splits)
    qed
  qed
  have "hkResults (res # rest) n u now =
          (if dn then del (callback n1 u err now) u else hkResults rest n1 u now)"
    using r unfolding r_def by simp
  with n1 assms Cons.IH [of n1] show ?case
    by (simp add: allNL_del callback_pres)
qed

lemma hkFin_nls: "nls (snd (hkFin us now n)) = nls n"
proof (induction us arbitrary: n)
  case Nil
  then show ?case by simp
next
  case (Cons u us)
  from Cons [of n] Cons [of "n\<lparr>fin := removeAll u (fin n)\<rparr>"]
  show ?case by (auto split: option.splits prod.splits)
qed

lemma hkRunning_pres:
  assumes "closedP ok P" "ok now"
  shows "allNL P n \<Longrightarrow> allNL P (hkRunning us pull now n)"
  by (induction us arbitrary: n) (simp_all add: hkResults_pres [OF assms])

lemma housekeep_pres:
  assumes "closedP ok P" "ok now" "allNL P n"
  shows "allNL P (housekeep n pull now)"
proof -
  obtain c n1 where h: "hkFin (fin n) now n = (c, n1)" by (metis surj_pair)
  with hkFin_nls [of "fin n" now n] have "nls n1 = nls n" by simp
  with assms have 1: "allNL P n1" by (simp add: allNL_def)
  then have 2: "allNL P (n1\<lparr>jtxBcasts := jtxBcasts n1 + 1\<rparr>)" by (simp add: allNL_def)
  from h 1 2 show ?thesis
    by (simp add: housekeep_def Let_def hkRunning_pres [OF assms(1,2)])
qed

lemma lscFail_pres:
  assumes "closedP ok P" "ok now"
  shows "allNL P n \<Longrightarrow> allNL P (lscFail rem now n)"
proof (induction rem arbitrary: n)
  case Nil
  then show ?case by simp
next
  case (Cons x rest)
  obtain u sid where x: "x = (u, sid)" by (cases x)
  show ?case
  proof (cases "getNL n u")
    case None
    with x Cons show ?thesis by simp
  next
    case (Some nl)
    with Cons.prems have "P nl" by (auto dest: allNL_getNL)
    with assms Cons.prems have "allNL P (setNL n u (addErr nl sid (ErrNodeNotFound sid)))"
      by (auto intro: allNL_setNL closedP_addErr)
    with assms have "allNL P (callback (setNL n u (addErr nl sid (ErrNodeNotFound sid))) u
               (Some (ErrNodeNotFound sid)) now)"
      by (simp add: callback_pres)
    with x Some Cons.IH show ?thesis by simp
  qed
qed

lemma fold_del_nls: "nls (fold (\<lambda>(u, sid) x. del x u) rem n) = nls n"
  by (induction rem arbitrary: n) (auto simp: del_def)

lemma ListenSmapChanged_pres:
  assumes "closedP ok P" "ok now" "allNL P n"
  shows "allNL P (ListenSmapChanged n started sm now)"
proof -
  from assms have 1: "allNL P (n\<lparr>smapVer := Version sm\<rparr>)" by (simp add: allNL_def)
  have "allNL P (fold (\<lambda>(u, sid) x. del x u) rem (lscFail rem now (n\<lparr>smapVer := Version sm\<rparr>)))"
    for rem
    using lscFail_pres [OF assms(1,2) 1, of rem] by (simp add: allNL_def fold_del_nls)
  with 1 assms show ?thesis
    by (simp add: ListenSmapChanged_def Let_def)
qed

lemma step_pres:
  assumes "closedP ok P" "\<And>now. evClock ev = Some now \<Longrightarrow> ok now" "allNL P n"
  shows "allNL P (step ev n)"
proof (cases ev)
  case (EvPush u tid srcErr now)
  with assms show ?thesis by (simp add: handler_pres)
next
  case (EvHousekeep pull now)
  with assms show ?thesis by (simp add: housekeep_pres)
next
  case (EvSmapChanged started sm now)
  with assms show ?thesis by (simp add: ListenSmapChanged_pres)
next
  case (EvCallback u err now)
  with assms show ?thesis by (simp add: callback_pres)
next
  case (EvHandleMsg u tid srcErr)
  show ?thesis
  proof (cases "getNL n u")
    case None
    with EvHandleMsg assms show ?thesis by simp
  next
    case (Some nl)
    with assms have "P nl" by (auto dest: allNL_getNL)
    obtain err status dn nl' where h: "handleMsg nl tid srcErr = (err, status, dn, nl')"
      by (metis prod_cases4)
    with assms \<open>P nl\<close> have "P nl'" by (auto dest: closedP_handleMsg)
    with assms EvHandleMsg Some h show ?thesis by (simp add: allNL_setNL)
  qed
next
  case (EvAddErr u sid err)
  show ?thesis
  proof (cases "getNL n u")
    case None
    with EvAddErr assms show ?thesis by simp
  next
    case (Some nl)
    with assms have "P nl" by (auto dest: allNL_getNL)
    with assms EvAddErr Some show ?thesis by (simp add: allNL_setNL closedP_addErr)
  qed
next
  case (EvDel u)
  with assms show ?thesis by (simp add: allNL_del)
qed

lemma run_pres:
  assumes "closedP ok P"
  shows "\<forall>ev\<in>set evs. \<forall>now. evClock ev = Some now \<longrightarrow> ok now \<Longrightarrow> allNL P n \<Longrightarrow>
         allNL P (run evs n)"
  unfolding run_def
proof (induction evs arbitrary: n)
  case Nil
  then show ?case by simp
next
  case (Cons ev evs)
  from Cons.prems have "allNL P (step ev n)"
    by (intro step_pres [OF assms]) auto
  with Cons show ?case by simp
qed

lemma reported_update:
  "map_of xs k = Some (Some v) \<Longrightarrow>
   length (filter (\<lambda>(sid, si). si = None) (AList.update k None xs)) =
     Suc (length (filter (\<lambda>(sid, si). si = None) xs))"
  by (induction xs) (auto split: if_splits)

lemma rcInv_closed: "closedP (\<lambda>now. True) rcInv"
  unfolding closedP_def
  by (auto simp: rcInv_def reported_def handleMsg_def addErr_def incRC_def callbackCAS_def Let_def
        reported_update split: option.splits)


lemma handleMsg_replay:
  "map_of (srcs nl) tid = Some None \<Longrightarrow>
     handleMsg nl tid srcErr = (Some (ErrDuplicateNotif tid), 0, False, nl)"
  by (simp add: handleMsg_def)

lemma setNL_same: "getNL n u = Some nl \<Longrightarrow> setNL n u nl = n"
  by (simp add: setNL_def getNL_def update_triv)

lemma handler_replay:
  "getNL n u = Some nl \<Longrightarrow> map_of (srcs nl) tid = Some None \<Longrightarrow>
     snd (handler n u tid srcErr now) = n"
  by (auto simp: handler_def entry_def handleMsg_replay setNL_same split: option.splits)

lemma getNL_setNL: "getNL (setNL n u nl) u = Some nl"
  by (simp add: getNL_def setNL_def update_conv')

lemma callback_marks:
  "getNL n u = Some nl \<Longrightarrow>
     \<exists>nl'. getNL (callback n u err now) u = Some nl' \<and> srcs nl' = srcs nl"
  by (auto simp: callback_def callbackCAS_def Let_def getNL_def setNL_def update_conv')

lemma handler_noop_or_marks:
  "(\<forall>e' now'. snd (handler n u tid e' now') = n) \<or>
   (\<exists>nl''. getNL (snd (handler n u tid e now)) u = Some nl'' \<and> map_of (srcs nl'') tid = Some None)"
proof (cases "entry n u")
  case None
  then show ?thesis by (simp add: handler_def)
next
  case (Some nl)
  then have g: "getNL n u = Some nl" by (auto simp: entry_def split: if_splits)
  show ?thesis
  proof (cases "finished nl")
    case True
    with Some show ?thesis by (simp add: handler_def)
  next
    case False
    show ?thesis
    proof (cases "map_of (srcs nl) tid")
      case None
      with Some False g have "\<forall>e' now'. snd (handler n u tid e' now') = n"
        by (simp add: handler_def handleMsg_def setNL_same)
      then show ?thesis ..
    next
      case (Some a)
      show ?thesis
      proof (cases a)
        case None
        with Some g have "\<forall>e' now'. snd (handler n u tid e' now') = n"
          by (simp add: handler_replay)
        then show ?thesis ..
      next
        case (Some tsi)
        obtain err status dn nl' where h: "handleMsg nl tid e = (err, status, dn, nl')"
          by (metis prod_cases4)
        with Some \<open>map_of (srcs nl) tid = Some a\<close> have m: "map_of (srcs nl') tid = Some None"
          by (auto simp: handleMsg_def incRC_def addErr_def Let_def update_conv' split: option.splits)
        have 1: "getNL (setNL n u nl') u = Some nl'" by (rule getNL_setNL)
        from callback_marks [OF 1, of None now] obtain nl2 where
          2: "getNL (callback (setNL n u nl') u None now) u = Some nl2" "srcs nl2 = srcs nl'"
          by blast
        then have 3: "getNL (del (callback (setNL n u nl') u None now) u) u = Some nl2"
          by (simp add: getNL_def del_def)
        have "snd (handler n u tid e now) =
                (if dn then del (callback (setNL n u nl') u None now) u else setNL n u nl')"
          using \<open>entry n u = Some nl\<close> False h by (simp add: handler_def Let_def)
        with 1 2 3 m have "\<exists>nl''. getNL (snd (handler n u tid e now)) u = Some nl'' \<and>
            map_of (srcs nl'') tid = Some None"
          by auto
        then show ?thesis ..
      qed
    qed
  qed
qed

lemma handler_idem:
  "snd (handler (snd (handler n u tid e now)) u tid e' now') = snd (handler n u tid e now)"
  using handler_noop_or_marks [of n u tid e now]
  by (auto simp: handler_replay)

lemma allNL_mono: "allNL P n \<Longrightarrow> (\<And>nl. P nl \<Longrightarrow> Q nl) \<Longrightarrow> allNL Q n"
  by (auto simp: allNL_def list_all_iff)

lemmas notifs_unfold =
  run_def handler_def entry_def getNL_def setNL_def handleMsg_def incRC_def addErr_def
  callback_def callbackCAS_def del_def finished_def finTime_def housekeep_def hkXact_def
  ListenSmapChanged_def missingSrc_def GetNode_def GetTarget_def GetProxy_def Let_def
  List.map_filter_def

lemmas notifs_inputs =
  notifsEx_def nlEx_def newNLB_def smapScenario_def smapNoT2_def mkNode_def evsEx_def
  nlRep_def notifsRep_def


section \<open>The notification registry: replayed reports\<close>

lemma handler_replay_response:
  "getNL n u = Some nl \<Longrightarrow> map_of (srcs nl) tid = Some None \<Longrightarrow>
     fst (handler n u tid srcErr now) =
       (if u \<in> set (running_m n) \<or> u \<in> set (fin n)
        then (if finished nl then RespErr (ErrAlreadyFinished u) 0
              else RespErr (ErrDuplicateNotif tid) 0)
        else RespErr (ErrUnknownUUID u) 404)"
  by (auto simp: handler_def entry_def handleMsg_replay Let_def)

text \<open>
  C8, as claimed: a report replayed by a notifier that has already reported is a
  silent no-op. In the registry \<open>notifsRep\<close> the target T1 has reported for the running
  listener \<open>U\<close>; when T1 reports again the registry stays as it is, but the handler
  answers with the duplicate error of \<open>handleMsg\<close>.
\<close>

theorem notif_replay_not_silent_counterexample:
  "getNL notifsRep ''U'' = Some nlRep \<and> map_of (srcs nlRep) ''T1'' = Some None \<and>
   handler notifsRep ''U'' ''T1'' None 6 = (RespErr (ErrDuplicateNotif ''T1'') 0, notifsRep)"
  by (simp add: notifs_unfold notifs_inputs)

text \<open>
  C8, amended. A report to \<open>/v1/notifs\<close> from a notifier that has already reported for
  the listener changes nothing in the registry: \<open>handleMsg\<close> finds \<open>srcs[tid] = nil\<close>,
  leaves the listener and its refcount as they are and says that it is not done, and
  the registry after the handler is the registry before it. So handling the same
  report twice leaves the registry as handling it once. The refcount of a listener
  made by \<open>newNLB\<close> is the number of its notifiers that have reported, whatever events
  occur, and so never exceeds the number of its notifiers. The replay is not silent:
  \<open>handleMsg\<close> returns a duplicate error and the handler answers the sender with it
  (with the already-finished error when the listener has finished, and with 404 when
  the uuid is no longer registered).
\<close>

theorem notif_replay_is_noop:
  "(getNL n u = Some nl \<and> map_of (srcs nl) tid = Some None \<longrightarrow>
      handleMsg nl tid srcErr = (Some (ErrDuplicateNotif tid), 0, False, nl) \<and>
      snd (handler n u tid srcErr now) = n \<and>
      fst (handler n u tid srcErr now) =
        (if u \<in> set (running_m n) \<or> u \<in> set (fin n)
         then (if finished nl then RespErr (ErrAlreadyFinished u) 0
               else RespErr (ErrDuplicateNotif tid) 0)
         else RespErr (ErrUnknownUUID u) 404)) \<and>
   snd (handler (snd (handler n u tid srcErr now)) u tid srcErr' now') =
     snd (handler n u tid srcErr now) \<and>
   rcInv (newNLB nodes f) \<and>
   (allNL rcInv n \<longrightarrow>
      allNL (\<lambda>nl. rc nl = int (reported nl) \<and> rc nl \<le> int (length (srcs nl))) (run evs n))"
proof (intro conjI impI)
  assume a: "getNL n u = Some nl \<and> map_of (srcs nl) tid = Some None"
  then show "handleMsg nl tid srcErr = (Some (ErrDuplicateNotif tid), 0, False, nl)"
    by (simp add: handleMsg_replay)
  from a show "snd (handler n u tid srcErr now) = n"
    by (simp add: handler_replay)
  from a show "fst (handler n u tid srcErr now) =
        (if u \<in> set (running_m n) \<or> u \<in> set (fin n)
         then (if finished nl then RespErr (ErrAlreadyFinished u) 0
               else RespErr (ErrDuplicateNotif tid) 0)
         else RespErr (ErrUnknownUUID u) 404)"
    by (simp add: handler_replay_response)
next
  show "snd (handler (snd (handler n u tid srcErr now)) u tid srcErr' now') =
     snd (handler n u tid srcErr now)"
    by (rule handler_idem)
next
  show "rcInv (newNLB nodes f)"
    by (simp add: rcInv_def newNLB_def reported_def filter_map o_def split_def)
next
  assume "allNL rcInv n"
  with run_pres [OF rcInv_closed, of evs n] have "allNL rcInv (run evs n)" by simp
  then show "allNL (\<lambda>nl. rc nl = int (reported nl) \<and> rc nl \<le> int (length (srcs nl))) (run evs n)"
    by (rule allNL_mono) (simp add: rcInv_def reported_def)
qed

theorem notif_replay_is_noop_witness:
  "snd (handler notifsEx ''U'' ''T1'' None 5) = notifsRep \<and>
   getNL notifsRep ''U'' = Some nlRep \<and> map_of (srcs nlRep) ''T1'' = Some None \<and>
   snd (handler notifsRep ''U'' ''T1'' None 6) = notifsRep \<and>
   fst (handler notifsRep ''U'' ''T1'' None 6) = RespErr (ErrDuplicateNotif ''T1'') 0 \<and>
   allNL rcInv notifsEx \<and>
   allNL (\<lambda>nl. rc nl = int (reported nl) \<and> rc nl \<le> int (length (srcs nl))) (run evsEx notifsEx)"
  using notif_replay_is_noop [of notifsRep "''U''" nlRep "''T1''" None 6 None 6 "[]" True]
        notif_replay_is_noop [of notifsEx "''U''" nlEx "''T1''" None 5 None 6 "[]" True evsEx]
  by (simp add: notifs_unfold notifs_inputs allNL_def rcInv_def reported_def)

section \<open>The notification registry: one callback per listener\<close>









lemma cb_single_thread:
  "fst (cbRun [0, 0, 0] (nl, [\<lparr>pc = AtCAS, cbErr = err, cbNow = now\<rparr>])) =
     (if tfin nl = 0 then callbackCAS nl err now else nl)"
  by (simp add: cbRun_def cbStep_def callbackCAS_def Let_def)



end
